theory Spec2Isabelle
  imports Complex_Main
begin

section \<open>Beam-ACO for the TSPTW: a shallow embedding\<close>

text \<open>
  The development follows \<^verbatim>\<open>Devoir2/utils/beam_search.py\<close> (class
  \<^verbatim>\<open>ProbabilisticBeamSearch\<close>) and the trial loop of
  \<^verbatim>\<open>Devoir2/solver_advanced.py\<close> (function \<^verbatim>\<open>solve\<close>).

  Numbers. Python integers are \<open>int\<close>, node identifiers and array indices are
  \<open>nat\<close>. A finite floating-point value is read as the real number it denotes
  (rounding is not modelled); the special values that the source produces (the
  literal \<^verbatim>\<open>inf\<close>, and numpy's results of a division by zero) are
  constructors of the type \<open>npfloat\<close> below.
\<close>

subsection \<open>Errors\<close>

text \<open>
  The exceptions the modelled code can raise. \<open>InfeasibleBranchError\<close> is the
  error named by the specification; no statement of the source raises it.
\<close>

datatype py_error =
    AssertionError string
  | KeyError
  | IndexError
  | ValueError
  | InfeasibleBranchError

subsection \<open>The instance and the colony (collaborators of the modelled code)\<close>

text \<open>
  Class \<^verbatim>\<open>TSPTW\<close> is used through its attributes only:
  \<^verbatim>\<open>num_nodes\<close>, \<^verbatim>\<open>graph.edges[(i,j)]['weight']\<close> (a dictionary
  lookup, \<open>None\<close> where the edge is absent), \<^verbatim>\<open>time_windows[i]\<close>,
  \<^verbatim>\<open>distance_max\<close>, \<^verbatim>\<open>distance_min\<close> and
  \<^verbatim>\<open>get_solution_cost\<close>.
\<close>

record tsptw =
  num_nodes :: int
  edge_weight :: "nat \<times> nat \<rightharpoonup> real"
  time_windows :: "nat \<Rightarrow> real \<times> real"
  distance_max :: real
  distance_min :: real
  get_solution_cost :: "nat list \<Rightarrow> real"

subsection \<open>Floating-point values\<close>

text \<open>
  A float is a finite value, read as a real number, or one of the special values.
  The source writes \<^verbatim>\<open>inf\<close> itself; \<open>NaN\<close> and the infinities also come
  out of numpy's array division by zero, which warns and does not raise. The two
  zeros of the format are not told apart: a zero divisor is taken as \<open>+0\<close>.
\<close>

datatype npfloat = Fin real | PInf | NInf | NaN

fun fneg :: "npfloat \<Rightarrow> npfloat" where
  "fneg (Fin x) = Fin (- x)"
| "fneg PInf = NInf"
| "fneg NInf = PInf"
| "fneg NaN = NaN"

fun fadd :: "npfloat \<Rightarrow> npfloat \<Rightarrow> npfloat" where
  "fadd NaN y = NaN"
| "fadd x NaN = NaN"
| "fadd (Fin x) (Fin y) = Fin (x + y)"
| "fadd PInf NInf = NaN"
| "fadd NInf PInf = NaN"
| "fadd PInf y = PInf"
| "fadd x PInf = PInf"
| "fadd NInf y = NInf"
| "fadd x NInf = NInf"

definition fsub :: "npfloat \<Rightarrow> npfloat \<Rightarrow> npfloat" where
  "fsub x y = fadd x (fneg y)"

fun fmul :: "npfloat \<Rightarrow> npfloat \<Rightarrow> npfloat" where
  "fmul NaN y = NaN"
| "fmul x NaN = NaN"
| "fmul (Fin x) (Fin y) = Fin (x * y)"
| "fmul (Fin x) PInf = (if x = 0 then NaN else if 0 < x then PInf else NInf)"
| "fmul (Fin x) NInf = (if x = 0 then NaN else if 0 < x then NInf else PInf)"
| "fmul PInf (Fin y) = (if y = 0 then NaN else if 0 < y then PInf else NInf)"
| "fmul NInf (Fin y) = (if y = 0 then NaN else if 0 < y then NInf else PInf)"
| "fmul PInf PInf = PInf"
| "fmul PInf NInf = NInf"
| "fmul NInf PInf = NInf"
| "fmul NInf NInf = PInf"

fun fdiv :: "npfloat \<Rightarrow> npfloat \<Rightarrow> npfloat" where
  "fdiv NaN y = NaN"
| "fdiv x NaN = NaN"
| "fdiv (Fin x) (Fin y) =
     (if y \<noteq> 0 then Fin (x / y)
      else if x = 0 then NaN else if 0 < x then PInf else NInf)"
| "fdiv (Fin x) PInf = Fin 0"
| "fdiv (Fin x) NInf = Fin 0"
| "fdiv PInf (Fin y) = (if 0 \<le> y then PInf else NInf)"
| "fdiv NInf (Fin y) = (if 0 \<le> y then NInf else PInf)"
| "fdiv x y = NaN"

text \<open>The comparisons \<^verbatim>\<open><\<close> and \<^verbatim>\<open>==\<close>; every comparison with \<open>NaN\<close> is false.\<close>

fun flt :: "npfloat \<Rightarrow> npfloat \<Rightarrow> bool" where
  "flt NaN y = False"
| "flt x NaN = False"
| "flt (Fin x) (Fin y) = (x < y)"
| "flt x NInf = False"
| "flt NInf y = True"
| "flt PInf y = False"
| "flt x PInf = True"

definition feq :: "npfloat \<Rightarrow> npfloat \<Rightarrow> bool" where
  "feq x y = (x \<noteq> NaN \<and> x = y)"

definition fle :: "npfloat \<Rightarrow> npfloat \<Rightarrow> bool" where
  "fle x y = (flt x y \<or> feq x y)"

text \<open>
  Python's \<^verbatim>\<open>min(a, b)\<close> and \<^verbatim>\<open>max(a, b)\<close> keep the first argument
  unless the second is strictly smaller (greater).
\<close>

definition py_min :: "npfloat \<Rightarrow> npfloat \<Rightarrow> npfloat" where
  "py_min a b = (if flt b a then b else a)"

definition py_max :: "npfloat \<Rightarrow> npfloat \<Rightarrow> npfloat" where
  "py_max a b = (if flt a b then b else a)"

type_synonym matrix = "npfloat list list"

text \<open>\<^verbatim>\<open>np.zeros((r, c))\<close> and the column assignment \<^verbatim>\<open>M[:, i] = v\<close>.\<close>

definition zeros :: "nat \<Rightarrow> nat \<Rightarrow> matrix" where
  "zeros r c = replicate r (replicate c (Fin 0))"

definition set_column :: "matrix \<Rightarrow> nat \<Rightarrow> npfloat \<Rightarrow> matrix" where
  "set_column M i v = map (\<lambda>row. row[i := v]) M"

subsection \<open>The constructor of ProbabilisticBeamSearch\<close>

text \<open>Python's \<^verbatim>\<open>int(x)\<close> on a float truncates towards zero.\<close>

definition py_int :: "real \<Rightarrow> int" where
  "py_int x = (if 0 \<le> x then \<lfloor>x\<rfloor> else \<lceil>x\<rceil>)"

record pbs =
  pbs_tsptw :: tsptw
  pbs_n :: nat
  beam_width :: int
  determinism_rate :: real
  max_children :: int
  mu_k_bw :: int
  n_samples :: int
  sample_rate :: int

text \<open>
  \<^verbatim>\<open>__init__\<close>: the two assertions, then the attribute assignments.
  \<open>pbs_n\<close> is \<^verbatim>\<open>self.ant.n\<close>.
\<close>

definition init ::
  "tsptw \<Rightarrow> nat \<Rightarrow> int \<Rightarrow> real \<Rightarrow> int \<Rightarrow> real \<Rightarrow> int \<Rightarrow> int \<Rightarrow> py_error + pbs" where
  "init t ant_n bw dr mc mu ns sample_percent =
     (if \<not> 0 < bw then Inl (AssertionError ''beam_width must be greater than 1'')
      else if \<not> 1 \<le> mu then Inl (AssertionError ''mu must be >= 1'')
      else Inr \<lparr> pbs_tsptw = t, pbs_n = ant_n, beam_width = bw, determinism_rate = dr,
                 max_children = mc, mu_k_bw = py_int (of_int bw * mu), n_samples = ns,
                 sample_rate =
                   py_int (of_int sample_percent * of_int (num_nodes t - 1) / 100 + 1 / 2) + 1 \<rparr>)"

text \<open>The default values declared in the signature of \<^verbatim>\<open>__init__\<close>.\<close>

definition default_beam_width :: int where "default_beam_width = 1"
definition default_determinism_rate :: real where "default_determinism_rate = 9 / 10"
definition default_max_children :: int where "default_max_children = 100"
definition default_mu :: real where "default_mu = 2 / 10"
definition default_n_samples :: int where "default_n_samples = 10"
definition default_sample_percent :: int where "default_sample_percent = 100"

subsection \<open>The heuristic attributes\<close>

text \<open>
  The property \<^verbatim>\<open>__heuristic_benefit_of_visiting_customer_attributes\<close>. It
  stores its three matrices in attributes at the first call and returns them at the
  later ones; its inputs never change, so the model computes them at each call.
  The matrices have the shape of the pheromone matrix, \<open>n \<times> n\<close> with
  \<open>n = self.ant.n\<close>.

  A traversal that stops at the first error, for loops whose body can raise:
\<close>

fun collect :: "(nat \<Rightarrow> py_error + 'a) \<Rightarrow> nat list \<Rightarrow> py_error + 'a list" where
  "collect f [] = Inr []"
| "collect f (j # js) =
     (case f j of
        Inl e \<Rightarrow> Inl e
      | Inr v \<Rightarrow> (case collect f js of Inl e \<Rightarrow> Inl e | Inr vs \<Rightarrow> Inr (v # vs)))"

text \<open>Line 101: the divisor of the travel costs.\<close>

definition standardizer :: "tsptw \<Rightarrow> real" where
  "standardizer t =
     (let s = distance_max t - distance_min t in if s > 0 then s else 1)"

text \<open>Line 104: one cell; the lookup of an absent edge raises \<^verbatim>\<open>KeyError\<close>.\<close>

definition travel_cost_cell :: "tsptw \<Rightarrow> nat \<Rightarrow> nat \<Rightarrow> py_error + npfloat" where
  "travel_cost_cell t i j =
     (case edge_weight t (i, j) of
        None \<Rightarrow> Inl KeyError
      | Some w \<Rightarrow> Inr (Fin ((distance_max t - w) / standardizer t)))"

text \<open>Lines 103 to 105: row \<open>i\<close>, every cell assigned, then the diagonal cell set to 0.\<close>

definition travel_cost_row :: "tsptw \<Rightarrow> nat \<Rightarrow> nat \<Rightarrow> py_error + npfloat list" where
  "travel_cost_row t n i =
     (case collect (travel_cost_cell t i) [0..<n] of
        Inl e \<Rightarrow> Inl e
      | Inr row \<Rightarrow> Inr (row[i := Fin 0]))"

definition travel_cost :: "tsptw \<Rightarrow> nat \<Rightarrow> py_error + matrix" where
  "travel_cost t n = collect (travel_cost_row t n) [0..<n]"

text \<open>
  Lines 107 to 143 compute the earliest and the latest service times in the same
  loops, on variables of their own; the model runs one function twice, on the lower
  and on the upper bounds of the time windows.

  Lines 113 to 122: from node \<open>i\<close>, the least positive gap to the bound of another
  node, \<^verbatim>\<open>inf\<close> when there is none.
\<close>

definition gap_step :: "(nat \<Rightarrow> real) \<Rightarrow> nat \<Rightarrow> nat \<Rightarrow> npfloat \<Rightarrow> npfloat" where
  "gap_step bound i j e_j =
     (if j \<noteq> i then
        (let g = bound j - bound i in if g > 0 then py_min e_j (Fin g) else e_j)
      else e_j)"

definition least_gap :: "(nat \<Rightarrow> real) \<Rightarrow> nat \<Rightarrow> nat \<Rightarrow> npfloat" where
  "least_gap bound n i = fold (gap_step bound i) [0..<n] PInf"

text \<open>
  Lines 124 to 130: the column of node \<open>i\<close> and the running maximum and minimum.
  The state is the matrix, \<^verbatim>\<open>e_max\<close> and \<^verbatim>\<open>e_min\<close>.
\<close>

definition gap_column :: "(nat \<Rightarrow> real) \<Rightarrow> nat \<Rightarrow> nat \<Rightarrow>
    matrix \<times> npfloat \<times> npfloat \<Rightarrow> matrix \<times> npfloat \<times> npfloat" where
  "gap_column bound n i st =
     (case st of (M, e_max, e_min) \<Rightarrow>
        (let e_j = least_gap bound n i
         in (set_column M i (if \<not> feq e_j PInf then e_j else Fin 0),
             (if \<not> feq e_j PInf then py_max e_max e_j else e_max),
             (if \<not> feq e_j PInf then py_min e_min e_j else e_min))))"

definition gap_columns :: "(nat \<Rightarrow> real) \<Rightarrow> nat \<Rightarrow> matrix \<times> npfloat \<times> npfloat" where
  "gap_columns bound n = fold (gap_column bound n) [0..<n] (zeros n n, Fin (- 1), PInf)"

text \<open>Lines 133 and 134: \<^verbatim>\<open>(e_max - M) / (e_max - e_min)\<close>, cell by cell.\<close>

definition standardize :: "matrix \<times> npfloat \<times> npfloat \<Rightarrow> matrix" where
  "standardize st =
     (case st of (M, e_max, e_min) \<Rightarrow>
        map (map (\<lambda>x. fdiv (fsub e_max x) (fsub e_max e_min))) M)"

text \<open>Lines 136 to 139: a column is reset from what its cell in row 0 holds.\<close>

definition clamp_column :: "nat \<Rightarrow> matrix \<Rightarrow> matrix" where
  "clamp_column i M =
     (let M1 = (if flt (Fin 1) (M ! 0 ! i) then set_column M i (Fin 1) else M)
      in if feq (M1 ! 0 ! i) (Fin 0) then set_column M1 i (Fin (1 / 1000)) else M1)"

definition service_time :: "(nat \<Rightarrow> real) \<Rightarrow> nat \<Rightarrow> matrix" where
  "service_time bound n = fold clamp_column [0..<n] (standardize (gap_columns bound n))"

text \<open>The value of the property: \<open>c\<close>, \<open>l\<close> and \<open>e\<close>, in this order.\<close>

definition heuristic_attributes :: "tsptw \<Rightarrow> nat \<Rightarrow> py_error + matrix \<times> matrix \<times> matrix" where
  "heuristic_attributes t n =
     (case travel_cost t n of
        Inl err \<Rightarrow> Inl err
      | Inr c \<Rightarrow> Inr (c, service_time (\<lambda>i. snd (time_windows t i)) n,
                        service_time (\<lambda>i. fst (time_windows t i)) n))"

text \<open>The values of \<^verbatim>\<open>e_max\<close> and \<^verbatim>\<open>e_min\<close> when the loop of line 110 ends.\<close>

definition gap_max :: "(nat \<Rightarrow> real) \<Rightarrow> nat \<Rightarrow> npfloat" where
  "gap_max bound n = fst (snd (gap_columns bound n))"

definition gap_min :: "(nat \<Rightarrow> real) \<Rightarrow> nat \<Rightarrow> npfloat" where
  "gap_min bound n = snd (snd (gap_columns bound n))"

text \<open>A cell in the interval \<open>(0, 1]\<close>.\<close>

fun unit_pos :: "npfloat \<Rightarrow> bool" where
  "unit_pos (Fin r) = (0 < r \<and> r \<le> 1)"
| "unit_pos x = False"

text \<open>A cell in the interval \<open>[0, 1]\<close>.\<close>

fun unit_closed :: "npfloat \<Rightarrow> bool" where
  "unit_closed (Fin r) = (0 \<le> r \<and> r \<le> 1)"
| "unit_closed x = False"

text \<open>
  The rule of lines 136 to 143, between a standardized value \<open>x\<close> and the cell
  \<open>y\<close> that the matrix holds in the end: above 1 it is clamped to 1.0, equal to
  0 it is floored to 0.001, and otherwise it is kept.
\<close>

definition clamped :: "npfloat \<Rightarrow> npfloat \<Rightarrow> bool" where
  "clamped x y =
     ((flt (Fin 1) x \<longrightarrow> y = Fin 1)
      \<and> (feq x (Fin 0) \<longrightarrow> y = Fin (1 / 1000))
      \<and> (\<not> flt (Fin 1) x \<and> \<not> feq x (Fin 0) \<longrightarrow> y = x))"

text \<open>
  Notions for the proofs about the service times: what lines 136 to 139 do to one
  cell; the value written into column \<open>i\<close> at line 124; what a least gap can be;
  and the invariant of \<^verbatim>\<open>e_max\<close> and \<^verbatim>\<open>e_min\<close> after \<open>k\<close> columns.
\<close>

definition clamp_cell :: "npfloat \<Rightarrow> npfloat" where
  "clamp_cell x =
     (let x1 = (if flt (Fin 1) x then Fin 1 else x)
      in if feq x1 (Fin 0) then Fin (1 / 1000) else x1)"

definition column_value :: "(nat \<Rightarrow> real) \<Rightarrow> nat \<Rightarrow> nat \<Rightarrow> npfloat" where
  "column_value bound n i =
     (if least_gap bound n i = PInf then Fin 0 else least_gap bound n i)"

definition gap_ok :: "npfloat \<Rightarrow> bool" where
  "gap_ok x = (x = PInf \<or> (\<exists>g>0. x = Fin g))"

definition stats_ok :: "(nat \<Rightarrow> real) \<Rightarrow> nat \<Rightarrow> nat \<Rightarrow> npfloat \<Rightarrow> npfloat \<Rightarrow> bool" where
  "stats_ok bound n k mx mn =
     (((\<forall>i<k. least_gap bound n i = PInf) \<and> mx = Fin (- 1) \<and> mn = PInf)
      \<or> (\<exists>a b. mx = Fin a \<and> mn = Fin b \<and> 0 < b \<and> b \<le> a
            \<and> (\<forall>i<k. least_gap bound n i = PInf
                  \<or> (\<exists>g. least_gap bound n i = Fin g \<and> b \<le> g \<and> g \<le> a))))"

subsection \<open>Three instances\<close>

text \<open>
  A depot and two customers, with symmetric distances 2, 4 and 3 and the time
  windows \<open>[0, 100]\<close>, \<open>[10, 50]\<close> and \<open>[30, 80]\<close>; a degenerate instance of
  two nodes whose distances are all equal; and the first instance again with the
  evenly spaced time windows \<open>[0, 100]\<close>, \<open>[10, 110]\<close> and \<open>[20, 120]\<close>.
\<close>

definition example_instance :: tsptw where
  "example_instance =
     \<lparr> num_nodes = 3,
       edge_weight = (\<lambda>(i, j). if i < 3 \<and> j < 3
                         then Some ([[0, 2, 4], [2, 0, 3], [4, 3, 0]] ! i ! j) else None),
       time_windows = (\<lambda>i. [(0, 100), (10, 50), (30, 80)] ! i),
       distance_max = 4, distance_min = 2,
       get_solution_cost = (\<lambda>_. 0) \<rparr>"

definition flat_instance :: tsptw where
  "flat_instance =
     \<lparr> num_nodes = 2, edge_weight = (\<lambda>_. Some 5), time_windows = (\<lambda>_. (0, 10)),
       distance_max = 5, distance_min = 5, get_solution_cost = (\<lambda>_. 0) \<rparr>"

definition spaced_instance :: tsptw where
  "spaced_instance =
     \<lparr> num_nodes = 3,
       edge_weight = (\<lambda>(i, j). if i < 3 \<and> j < 3
                         then Some ([[0, 2, 4], [2, 0, 3], [4, 3, 0]] ! i ! j) else None),
       time_windows = (\<lambda>i. [(0, 100), (10, 110), (20, 120)] ! i),
       distance_max = 4, distance_min = 2,
       get_solution_cost = (\<lambda>_. 0) \<rparr>"

subsection \<open>The restart decision of the trial loop\<close>

text \<open>
  Lines 117 to 124 of \<^verbatim>\<open>solve\<close>: what is done to the pheromone matrix at the
  end of one iteration, from the flag \<^verbatim>\<open>bs_update\<close> and the convergence factor
  \<^verbatim>\<open>cf\<close> of this iteration. The result holds the operation and the new value
  of the flag.
\<close>

datatype pheromone_op = ResetUniform | UpdateValues bool

definition restart_decision :: "bool \<Rightarrow> real \<Rightarrow> pheromone_op \<times> bool" where
  "restart_decision bs_update cf =
     (if bs_update \<and> cf > 99 / 100 then (ResetUniform, False)
      else let bs_update' = (if cf > 99 / 100 then True else bs_update)
           in (UpdateValues bs_update', bs_update'))"

text \<open>
  The iterations of one trial, given the convergence factor computed in each:
  the operations applied to the pheromone matrix, in order. A trial starts with
  \<^verbatim>\<open>bs_update = False\<close>.
\<close>

fun trial_ops :: "bool \<Rightarrow> real list \<Rightarrow> pheromone_op list" where
  "trial_ops bs_update [] = []"
| "trial_ops bs_update (cf # cfs) =
     (case restart_decision bs_update cf of
        (op, bs_update') \<Rightarrow> op # trial_ops bs_update' cfs)"

text \<open>The number of checks among the first \<open>k\<close> whose factor exceeds 0.99.\<close>

definition high_checks :: "real list \<Rightarrow> nat \<Rightarrow> nat" where
  "high_checks cfs k = length (filter (\<lambda>cf. cf > 99 / 100) (take k cfs))"

subsection \<open>The pheromone store\<close>

text \<open>
  Modelled from the spec: class \<^verbatim>\<open>Ant\<close> (\<^verbatim>\<open>utils/ant.py\<close>) is not among
  the sources. Its constructor arguments are those of line 40 of \<^verbatim>\<open>solve\<close>;
  its matrix is \<open>n \<times> n\<close>, of finite values.
\<close>

type_synonym pheromone = "real list list"

record ant =
  ant_nodes :: nat
  l_rate :: real
  tau_min :: real
  tau_max :: real
  pheromone :: pheromone

text \<open>
  Modelled from the spec: \<^verbatim>\<open>resetUniformPheromoneValues\<close> sets every cell to the
  fixed mid-value 0.5.
\<close>

definition resetUniformPheromoneValues :: "ant \<Rightarrow> ant" where
  "resetUniformPheromoneValues a = a\<lparr>pheromone := map (map (\<lambda>_. 1 / 2)) (pheromone a)\<rparr>"

text \<open>
  Modelled from the spec: \<^verbatim>\<open>updatePheromoneValues\<close> evaporates every cell
  (\<open>\<tau> \<leftarrow> \<tau> * (1 - \<rho>)\<close> for the learning rate \<open>\<rho>\<close>), deposits along the arcs of
  the reference tours that are not null, and then clamps every cell into
  \<open>[\<tau>_min, \<tau>_max]\<close>. The spec does not fix the weights of the three tours: they are
  a parameter, a function of \<^verbatim>\<open>use_best_so_far\<close> and \<^verbatim>\<open>cf\<close>.
\<close>

fun on_tour :: "nat list option \<Rightarrow> nat \<Rightarrow> nat \<Rightarrow> real" where
  "on_tour None i j = 0"
| "on_tour (Some tour) i j = (if (i, j) \<in> set (zip tour (tl tour)) then 1 else 0)"

definition deposit ::
  "(bool \<Rightarrow> real \<Rightarrow> real \<times> real \<times> real) \<Rightarrow> bool \<Rightarrow> real \<Rightarrow>
   nat list option \<Rightarrow> nat list option \<Rightarrow> nat list option \<Rightarrow> nat \<Rightarrow> nat \<Rightarrow> real" where
  "deposit schedule use_bsf cf ib rb bf i j =
     (case schedule use_bsf cf of (k_ib, k_rb, k_bf) \<Rightarrow>
        k_ib * on_tour ib i j + k_rb * on_tour rb i j + k_bf * on_tour bf i j)"

definition clamp :: "real \<Rightarrow> real \<Rightarrow> real \<Rightarrow> real" where
  "clamp lo hi x = min hi (max lo x)"

definition updatePheromoneValues ::
  "(bool \<Rightarrow> real \<Rightarrow> real \<times> real \<times> real) \<Rightarrow> ant \<Rightarrow> bool \<Rightarrow> real \<Rightarrow>
   nat list option \<Rightarrow> nat list option \<Rightarrow> nat list option \<Rightarrow> ant" where
  "updatePheromoneValues schedule a use_bsf cf ib rb bf =
     a\<lparr>pheromone :=
         map (\<lambda>(i, row). map (\<lambda>(j, x).
                clamp (tau_min a) (tau_max a)
                  (x * (1 - l_rate a) + deposit schedule use_bsf cf ib rb bf i j))
              (enumerate 0 row))
           (enumerate 0 (pheromone a))\<rparr>"

text \<open>
  The calls that \<^verbatim>\<open>solve\<close> makes on the store (lines 62, 118 and 124), and the
  stores that a sequence of calls goes through.
\<close>

datatype ant_call =
    Reset
  | Update bool real "nat list option" "nat list option" "nat list option"

fun ant_step :: "(bool \<Rightarrow> real \<Rightarrow> real \<times> real \<times> real) \<Rightarrow> ant \<Rightarrow> ant_call \<Rightarrow> ant" where
  "ant_step schedule a Reset = resetUniformPheromoneValues a"
| "ant_step schedule a (Update use_bsf cf ib rb bf) =
     updatePheromoneValues schedule a use_bsf cf ib rb bf"

fun ant_trace :: "(bool \<Rightarrow> real \<Rightarrow> real \<times> real \<times> real) \<Rightarrow> ant \<Rightarrow> ant_call list \<Rightarrow> ant list" where
  "ant_trace schedule a [] = []"
| "ant_trace schedule a (c # cs) =
     ant_step schedule a c # ant_trace schedule (ant_step schedule a c) cs"

text \<open>The store that \<^verbatim>\<open>solve\<close> builds (lines 26 to 28 and 40).\<close>

definition solve_ant :: "nat \<Rightarrow> pheromone \<Rightarrow> ant" where
  "solve_ant n p = \<lparr> ant_nodes = n, l_rate = 1 / 10, tau_min = 1 / 1000, tau_max = 999 / 1000,
                     pheromone = p \<rparr>"

definition in_bounds :: "ant \<Rightarrow> bool" where
  "in_bounds a = list_all (list_all (\<lambda>x. tau_min a \<le> x \<and> x \<le> tau_max a)) (pheromone a)"

definition all_half :: "ant \<Rightarrow> bool" where
  "all_half a = list_all (list_all (\<lambda>x. x = 1 / 2)) (pheromone a)"

subsection \<open>Random numbers\<close>

text \<open>
  The generator is a stream \<open>U\<close> of draws from \<open>[0, 1)\<close> and the position of the
  next draw, which every function that draws returns advanced.
  \<^verbatim>\<open>np.random.uniform(low, high)\<close> is \<open>low + (high - low) * u\<close> for one draw
  \<open>u\<close>.
\<close>

record lambdas =
  lambda_c :: real
  lambda_l :: real
  lambda_e :: real

text \<open>\<^verbatim>\<open>__random_define_lambda\<close>.\<close>

definition random_define_lambda :: "(nat \<Rightarrow> real) \<Rightarrow> nat \<Rightarrow> lambdas \<times> nat" where
  "random_define_lambda U k =
     (let lc = U k; ll = (1 - lc) * U (k + 1)
      in (\<lparr> lambda_c = lc, lambda_l = ll, lambda_e = 1 - lc - ll \<rparr>, k + 2))"

subsection \<open>Stochastic sampling\<close>

text \<open>Arithmetic of numpy on arrays of one shape, cell by cell.\<close>

definition mat_scale :: "real \<Rightarrow> matrix \<Rightarrow> matrix" where
  "mat_scale a M = map (map (fmul (Fin a))) M"

definition mat_add :: "matrix \<Rightarrow> matrix \<Rightarrow> matrix" where
  "mat_add A B = map2 (map2 fadd) A B"

definition mat_mul :: "matrix \<Rightarrow> matrix \<Rightarrow> matrix" where
  "mat_mul A B = map2 (map2 fmul) A B"

text \<open>\<^verbatim>\<open>__sample_heuristic_benefit_of_visiting_customer\<close>.\<close>

definition sample_heuristic :: "pbs \<Rightarrow> lambdas \<Rightarrow> py_error + matrix" where
  "sample_heuristic s lam =
     (case heuristic_attributes (pbs_tsptw s) (pbs_n s) of
        Inl err \<Rightarrow> Inl err
      | Inr (c, l, e) \<Rightarrow>
          Inr (mat_add (mat_add (mat_scale (lambda_c lam) c) (mat_scale (lambda_l lam) l))
                       (mat_scale (lambda_e lam) e)))"

text \<open>
  \<^verbatim>\<open>np.argmax\<close> on a vector: the scan of numpy, which moves to a later cell only
  when it is not \<open>\<le>\<close> the greatest so far, and stops at the first \<open>NaN\<close>. An empty
  vector raises \<^verbatim>\<open>ValueError\<close>.
\<close>

fun argmax_scan :: "npfloat list \<Rightarrow> nat \<Rightarrow> npfloat \<Rightarrow> nat \<Rightarrow> nat" where
  "argmax_scan [] i mp mi = mi"
| "argmax_scan (x # xs) i mp mi =
     (if \<not> fle x mp then (if x = NaN then i else argmax_scan xs (Suc i) x i)
      else argmax_scan xs (Suc i) mp mi)"

definition np_argmax :: "npfloat list \<Rightarrow> py_error + nat" where
  "np_argmax xs =
     (case xs of
        [] \<Rightarrow> Inl ValueError
      | x # xs' \<Rightarrow> Inr (if x = NaN then 0 else argmax_scan xs' 1 x 0))"

text \<open>Python's \<^verbatim>\<open>sum\<close>: from 0, left to right.\<close>

definition py_sum :: "npfloat list \<Rightarrow> npfloat" where
  "py_sum xs = foldl fadd (Fin 0) xs"

text \<open>
  \<^verbatim>\<open>np.random.choice(range(len(p)), p=p)\<close>. numpy raises \<^verbatim>\<open>ValueError\<close> when
  \<open>p\<close> is empty, holds a \<open>NaN\<close> or a negative value, or does not sum to 1 within
  \<open>sqrt eps = 2\<^sup>-\<^sup>2\<^sup>6\<close>; otherwise it divides the cumulative sums by the last
  one and returns the number of them that one draw \<open>u\<close> is not below
  (\<^verbatim>\<open>searchsorted\<close>, side right).
\<close>

fun the_finite :: "npfloat \<Rightarrow> real option" where
  "the_finite (Fin x) = Some x"
| "the_finite x = None"

fun finite_list :: "npfloat list \<Rightarrow> real list option" where
  "finite_list [] = Some []"
| "finite_list (x # xs) =
     (case the_finite x of
        None \<Rightarrow> None
      | Some r \<Rightarrow> (case finite_list xs of None \<Rightarrow> None | Some rs \<Rightarrow> Some (r # rs)))"

fun cumsum :: "real \<Rightarrow> real list \<Rightarrow> real list" where
  "cumsum acc [] = []"
| "cumsum acc (x # xs) = (acc + x) # cumsum (acc + x) xs"

definition np_choice :: "npfloat list \<Rightarrow> real \<Rightarrow> py_error + nat" where
  "np_choice p u =
     (case finite_list p of
        None \<Rightarrow> Inl ValueError
      | Some ps \<Rightarrow>
          if ps = [] then Inl ValueError
          else if list_ex (\<lambda>x. x < 0) ps then Inl ValueError
          else if \<bar>sum_list ps - 1\<bar> > 1 / 2 ^ 26 then Inl ValueError
          else (let cdf = cumsum 0 ps;
                    cdf' = map (\<lambda>c. c / last cdf) cdf;
                    idx = length (takeWhile (\<lambda>c. c \<le> u) cdf')
                in if idx < length ps then Inr idx else Inl IndexError))"

text \<open>
  \<^verbatim>\<open>__stochastic_sampling\<close>. The result holds the node and the position of the
  generator after the one or two draws.
\<close>

definition stochastic_sampling ::
  "pbs \<Rightarrow> lambdas \<Rightarrow> (nat \<Rightarrow> real) \<Rightarrow> matrix \<Rightarrow> nat \<Rightarrow> nat \<Rightarrow> py_error + nat \<times> nat" where
  "stochastic_sampling s lam U tau last_customer_added k =
     (let q = U k in
      case sample_heuristic s lam of
        Inl err \<Rightarrow> Inl err
      | Inr eta \<Rightarrow>
          (let prod = mat_mul tau eta in
           if \<not> last_customer_added < length prod then Inl IndexError
           else
             (let tau_eta = prod ! last_customer_added in
              if q \<le> determinism_rate s then
                (case np_argmax tau_eta of Inl err \<Rightarrow> Inl err | Inr j \<Rightarrow> Inr (j, k + 1))
              else
                (let p = map (\<lambda>x. fdiv x (py_sum tau_eta)) tau_eta in
                 case np_choice p (U (k + 1)) of
                   Inl err \<Rightarrow> Inl err
                 | Inr j \<Rightarrow> Inr (j, k + 2)))))"

text \<open>
  The object that \<^verbatim>\<open>solve\<close> builds on the example (lines 29, 31, 32 and 41), and
  a pheromone matrix just after a reset.
\<close>

definition example_pbs :: pbs where
  "example_pbs = \<lparr> pbs_tsptw = example_instance, pbs_n = 3, beam_width = 1,
      determinism_rate = 2 / 10, max_children = 100, mu_k_bw = 4, n_samples = 10,
      sample_rate = 3 \<rparr>"

definition uniform_pheromone :: "nat \<Rightarrow> matrix" where
  "uniform_pheromone n = replicate n (replicate n (Fin (1 / 2)))"

text \<open>
  The products \<open>\<tau>[last][j] * \<eta>[last][j]\<close> of a row of finite pheromone values and
  a row of finite heuristic values, for stating what the sampling returns.
\<close>

definition products :: "real list \<Rightarrow> real list \<Rightarrow> real list" where
  "products tau_row eta_row = map2 (*) tau_row eta_row"

text \<open>The weights that \<^verbatim>\<open>__random_define_lambda\<close> draws when both draws are 0.1.\<close>

definition example_lambdas :: lambdas where
  "example_lambdas = \<lparr> lambda_c = 1 / 10, lambda_l = 9 / 100, lambda_e = 81 / 100 \<rparr>"

subsection \<open>Beam construction\<close>

text \<open>
  Modelled from the spec: class \<^verbatim>\<open>BeamNode\<close> (\<^verbatim>\<open>utils/beam_node.py\<close>) is not
  among the sources. A node holds a node id, a reference to the pheromone matrix
  (here an argument of the functions) and a collection of children, kept in the
  order in which they are added. \<^verbatim>\<open>extract_solution\<close> returns the leaves of the
  tree as tours: the ids from the root to each leaf.
\<close>

datatype BeamNode = BeamNode (node_id: nat) (children: "BeamNode list")

fun extract_solution :: "BeamNode \<Rightarrow> nat list list" where
  "extract_solution (BeamNode i cs) =
     (if cs = [] then [[i]]
      else concat (map (\<lambda>c. map ((#) i) (extract_solution c)) cs))"

text \<open>Lines 49 to 52: the ids of the children, one sampling from the same node each.\<close>

fun sample_children ::
  "pbs \<Rightarrow> lambdas \<Rightarrow> (nat \<Rightarrow> real) \<Rightarrow> matrix \<Rightarrow> nat \<Rightarrow> nat \<Rightarrow> nat
     \<Rightarrow> py_error + nat list \<times> nat" where
  "sample_children s lam U tau bid 0 k = Inr ([], k)"
| "sample_children s lam U tau bid (Suc m) k =
     (case stochastic_sampling s lam U tau bid k of
        Inl err \<Rightarrow> Inl err
      | Inr (j, k1) \<Rightarrow>
          (case sample_children s lam U tau bid m k1 of
             Inl err \<Rightarrow> Inl err
           | Inr (js, k2) \<Rightarrow> Inr (j # js, k2)))"

text \<open>
  \<^verbatim>\<open>__beam__construction_step\<close>, on the node \<open>bid\<close> with the child budget
  \<open>budget\<close> (the argument \<^verbatim>\<open>mu_k_bw\<close>) and the count \<open>remaining\<close> of
  children not in the solution: the subtree it builds below the node. \<open>expand_children\<close> is the loop of lines 55 to
  57 over the children. \<^verbatim>\<open>range\<close> of a number that is not positive is empty.
\<close>

function beam_construction_step ::
    "pbs \<Rightarrow> lambdas \<Rightarrow> (nat \<Rightarrow> real) \<Rightarrow> matrix \<Rightarrow> nat \<Rightarrow> int \<Rightarrow> int \<Rightarrow> nat
       \<Rightarrow> py_error + BeamNode \<times> nat"
  and expand_children ::
    "pbs \<Rightarrow> lambdas \<Rightarrow> (nat \<Rightarrow> real) \<Rightarrow> matrix \<Rightarrow> nat list \<Rightarrow> int \<Rightarrow> int \<Rightarrow> nat
       \<Rightarrow> py_error + BeamNode list \<times> nat" where
  "beam_construction_step s lam U tau bid budget remaining k =
     (if 0 < min budget remaining then
        (case sample_children s lam U tau bid (nat (min budget remaining)) k of
           Inl err \<Rightarrow> Inl err
         | Inr (ids, k1) \<Rightarrow>
             (case expand_children s lam U tau ids (max 1 (budget - 1)) (remaining - 1) k1 of
                Inl err \<Rightarrow> Inl err
              | Inr (cs, k2) \<Rightarrow> Inr (BeamNode bid cs, k2)))
      else Inr (BeamNode bid [], k))"
| "expand_children s lam U tau [] budget remaining k = Inr ([], k)"
| "expand_children s lam U tau (i # ids) budget remaining k =
     (case beam_construction_step s lam U tau i budget remaining k of
        Inl err \<Rightarrow> Inl err
      | Inr (c, k1) \<Rightarrow>
          (case expand_children s lam U tau ids budget remaining k1 of
             Inl err \<Rightarrow> Inl err
           | Inr (cs, k2) \<Rightarrow> Inr (c # cs, k2)))"
  by pat_completeness auto
termination
  by (relation "(\<lambda>x. case x of
         Inl (s, lam, U, tau, bid, b, r, k) \<Rightarrow> 2 * nat r
       | Inr (s, lam, U, tau, ids, b, r, k) \<Rightarrow> 2 * nat r + 1) <*mlex*>
       measure (\<lambda>x. case x of Inl _ \<Rightarrow> 0 | Inr (s, lam, U, tau, ids, b, r, k) \<Rightarrow> length ids)")
     (auto simp: wf_mlex mlex_prod_def)

text \<open>\<^verbatim>\<open>np.argmin\<close> on a list that is not empty: the first index of the least value.\<close>

fun argmin_scan :: "real list \<Rightarrow> nat \<Rightarrow> real \<Rightarrow> nat \<Rightarrow> nat" where
  "argmin_scan [] i mp mi = mi"
| "argmin_scan (x # xs) i mp mi =
     (if x < mp then argmin_scan xs (Suc i) x i else argmin_scan xs (Suc i) mp mi)"

definition np_argmin :: "real list \<Rightarrow> py_error + nat" where
  "np_argmin xs = (case xs of [] \<Rightarrow> Inl ValueError | x # xs' \<Rightarrow> Inr (argmin_scan xs' 1 x 0))"

text \<open>\<^verbatim>\<open>beam_construct\<close>; \<open>tau\<close> is \<^verbatim>\<open>self.ant.pheromone\<close>.\<close>

definition beam_construct ::
  "pbs \<Rightarrow> (nat \<Rightarrow> real) \<Rightarrow> matrix \<Rightarrow> nat \<Rightarrow> py_error + nat list \<times> nat" where
  "beam_construct s U tau k =
     (case random_define_lambda U k of (lam, k1) \<Rightarrow>
        (let number_of_children_not_in_solution = num_nodes (pbs_tsptw s) - 1 in
         case beam_construction_step s lam U tau 0 (mu_k_bw s)
                number_of_children_not_in_solution k1 of
           Inl err \<Rightarrow> Inl err
         | Inr (beam_root, k2) \<Rightarrow>
             (let potential_solutions = extract_solution beam_root;
                  potential_solutions_cost =
                    map (get_solution_cost (pbs_tsptw s)) potential_solutions
              in case np_argmin potential_solutions_cost of
                   Inl err \<Rightarrow> Inl err
                 | Inr i \<Rightarrow> Inr (potential_solutions ! i @ [0], k2))))"

text \<open>
  What the recursion of line 57 does to a tree, for stating it: a node expanded
  with the budget \<open>b\<close> and the count \<open>r\<close> has \<open>min b r\<close> children (none when this
  is not positive), each expanded with \<open>max 1 (b - 1)\<close> and \<open>r - 1\<close>. Then the
  height of a tree and the greatest number of children of its nodes.
\<close>

fun expanded :: "int \<Rightarrow> int \<Rightarrow> BeamNode \<Rightarrow> bool" where
  "expanded b r (BeamNode i cs) =
     (length cs = nat (min b r) \<and> (\<forall>c\<in>set cs. expanded (max 1 (b - 1)) (r - 1) c))"

fun height :: "BeamNode \<Rightarrow> nat" where
  "height (BeamNode i cs) = (if cs = [] then 0 else Suc (Max (set (map height cs))))"

fun fanout :: "BeamNode \<Rightarrow> nat" where
  "fanout (BeamNode i cs) = max (length cs) (if cs = [] then 0 else Max (set (map fanout cs)))"

text \<open>
  The same in the words of the specification, to compare with: the budget of the
  children is \<open>b - 1\<close>.
\<close>

fun decremented :: "int \<Rightarrow> int \<Rightarrow> BeamNode \<Rightarrow> bool" where
  "decremented b r (BeamNode i cs) =
     (length cs = nat (min b r) \<and> (\<forall>c\<in>set cs. decremented (b - 1) (r - 1) c))"

section \<open>Properties\<close>

subsection \<open>The constructor\<close>

text \<open>
  C10. The constructor returns an object exactly when \<open>beam_width \<ge> 1\<close> and
  \<open>mu \<ge> 1\<close>; called with the default values of its own signature it fails the
  second assertion, with the message \<^verbatim>\<open>mu must be >= 1\<close>.
\<close>

theorem init_requires:
  "((\<exists>p. init t ant_n bw dr mc mu ns sp = Inr p) \<longleftrightarrow> 1 \<le> bw \<and> 1 \<le> mu)
   \<and> init t ant_n default_beam_width default_determinism_rate default_max_children
        default_mu default_n_samples default_sample_percent
      = Inl (AssertionError ''mu must be >= 1'')"
  by (auto simp: init_def default_beam_width_def default_mu_def)

theorem init_requires_witness:
  "(\<exists>p. init \<lparr> num_nodes = 3, edge_weight = Map.empty, time_windows = (\<lambda>_. (0, 0)),
               distance_max = 0, distance_min = 0, get_solution_cost = (\<lambda>_. 0) \<rparr>
          3 1 (2 / 10) 100 4 10 100 = Inr p)
   \<and> \<not> (\<exists>p. init \<lparr> num_nodes = 3, edge_weight = Map.empty, time_windows = (\<lambda>_. (0, 0)),
               distance_max = 0, distance_min = 0, get_solution_cost = (\<lambda>_. 0) \<rparr>
          3 1 (2 / 10) 100 (2 / 10) 10 100 = Inr p)"
  using init_requires [of _ 3 1 "2 / 10" 100 4 10 100]
        init_requires [of _ 3 1 "2 / 10" 100 "2 / 10" 10 100]
  by simp

subsection \<open>The travel costs\<close>

lemma collect_map:
  "(\<And>j. j \<in> set js \<Longrightarrow> f j = Inr (g j)) \<Longrightarrow> collect f js = Inr (map g js)"
  by (induction js) auto

lemma collect_Inr_length: "collect f js = Inr vs \<Longrightarrow> length vs = length js"
  by (induction js arbitrary: vs) (auto split: sum.splits)

lemma collect_Inr_nth:
  "collect f js = Inr vs \<Longrightarrow> k < length js \<Longrightarrow> f (js ! k) = Inr (vs ! k)"
proof (induction js arbitrary: vs k)
  case Nil
  then show ?case by simp
next
  case (Cons j js)
  then show ?case
    by (cases k) (auto split: sum.splits)
qed

lemma travel_cost_row_complete:
  assumes "\<And>j. j < n \<Longrightarrow> edge_weight t (i, j) = Some (w i j)"
  shows "travel_cost_row t n i =
           Inr ((map (\<lambda>j. Fin ((distance_max t - w i j) / standardizer t)) [0..<n])[i := Fin 0])"
proof -
  have "collect (travel_cost_cell t i) [0..<n]
          = Inr (map (\<lambda>j. Fin ((distance_max t - w i j) / standardizer t)) [0..<n])"
    by (rule collect_map) (simp add: travel_cost_cell_def assms)
  then show ?thesis
    by (simp add: travel_cost_row_def)
qed

lemma travel_cost_complete:
  assumes "\<And>i j. i < n \<Longrightarrow> j < n \<Longrightarrow> edge_weight t (i, j) = Some (w i j)"
  shows "travel_cost t n =
           Inr (map (\<lambda>i. (map (\<lambda>j. Fin ((distance_max t - w i j) / standardizer t))
                              [0..<n])[i := Fin 0]) [0..<n])"
  unfolding travel_cost_def
  by (rule collect_map) (simp add: travel_cost_row_complete assms)

text \<open>
  C6. On an instance whose graph holds every edge \<open>(i, j)\<close> of its \<open>n\<close> nodes and
  whose \<open>distance_min\<close> is at most \<open>distance_max\<close>, the construction of the travel
  costs returns a matrix: its diagonal is 0, and its cell \<open>(i, j)\<close>, \<open>i \<noteq> j\<close>, is
  \<open>(distance_max - weight (i, j)) / (distance_max - distance_min)\<close>, the divisor
  being 1 when the two distances are equal.
\<close>

theorem travel_cost_formula:
  assumes edges: "\<And>i j. i < n \<Longrightarrow> j < n \<Longrightarrow> edge_weight t (i, j) = Some (w i j)"
    and range: "distance_min t \<le> distance_max t"
  shows "\<exists>c. travel_cost t n = Inr c \<and> length c = n
           \<and> (\<forall>i<n. length (c ! i) = n \<and> c ! i ! i = Fin 0
                \<and> (\<forall>j<n. i \<noteq> j \<longrightarrow>
                      c ! i ! j = Fin ((distance_max t - w i j) /
                        (if distance_max t = distance_min t then 1
                         else distance_max t - distance_min t))))"
proof -
  have std: "standardizer t =
      (if distance_max t = distance_min t then 1 else distance_max t - distance_min t)"
    using range by (auto simp: standardizer_def Let_def)
  show ?thesis
    by (simp add: travel_cost_complete [of n t w, OF edges] std)
qed

theorem travel_cost_formula_witness:
  "(\<exists>c. travel_cost flat_instance 2 = Inr c \<and> c ! 0 ! 0 = Fin 0 \<and> c ! 0 ! 1 = Fin ((5 - 5) / 1))
   \<and> (\<exists>c. travel_cost example_instance 3 = Inr c \<and> c ! 1 ! 1 = Fin 0
          \<and> c ! 1 ! 2 = Fin ((4 - 3) / (4 - 2)))"
  using travel_cost_formula [of 2 flat_instance "\<lambda>_ _. 5"]
    travel_cost_formula [of 3 example_instance "\<lambda>i j. [[0, 2, 4], [2, 0, 3], [4, 3, 0]] ! i ! j"]
  by (auto simp: flat_instance_def example_instance_def)

subsection \<open>The service times\<close>

lemma set_column_replicate:
  "set_column (replicate n row) i v = replicate n (row[i := v])"
  by (simp add: set_column_def)

lemma gap_step_ok: "gap_ok x \<Longrightarrow> gap_ok (gap_step bound i j x)"
  by (auto simp: gap_ok_def gap_step_def py_min_def Let_def)

lemma fold_gap_step_ok: "gap_ok x \<Longrightarrow> gap_ok (fold (gap_step bound i) js x)"
  by (induction js arbitrary: x) (auto simp: gap_step_ok)

lemma least_gap_ok: "gap_ok (least_gap bound n i)"
  unfolding least_gap_def by (rule fold_gap_step_ok) (simp add: gap_ok_def)

lemma stats_step_inf:
  assumes "stats_ok bound n k mx mn" "least_gap bound n k = PInf"
  shows "stats_ok bound n (Suc k) mx mn"
  using assms unfolding stats_ok_def less_Suc_eq by blast

lemma stats_step_fin:
  assumes ok: "stats_ok bound n k mx mn" and g: "least_gap bound n k = Fin g" "0 < g"
  shows "stats_ok bound n (Suc k) (py_max mx (Fin g)) (py_min mn (Fin g))"
proof -
  from ok consider
      (none) "\<forall>i<k. least_gap bound n i = PInf" "mx = Fin (- 1)" "mn = PInf"
    | (some) a b where "mx = Fin a" "mn = Fin b" "0 < b" "b \<le> a"
        "\<forall>i<k. least_gap bound n i = PInf
                  \<or> (\<exists>g. least_gap bound n i = Fin g \<and> b \<le> g \<and> g \<le> a)"
    unfolding stats_ok_def by blast
  then show ?thesis
  proof cases
    case none
    have "py_max mx (Fin g) = Fin g" "py_min mn (Fin g) = Fin g"
      using none g by (simp_all add: py_max_def py_min_def)
    moreover have "\<forall>i<Suc k. least_gap bound n i = PInf
        \<or> (\<exists>h. least_gap bound n i = Fin h \<and> g \<le> h \<and> h \<le> g)"
      using none g by (simp add: less_Suc_eq)
    ultimately show ?thesis
      unfolding stats_ok_def using g by blast
  next
    case some
    have mx: "py_max mx (Fin g) = Fin (max a g)"
      using some by (simp add: py_max_def max_def)
    have mn: "py_min mn (Fin g) = Fin (min b g)"
      using some by (simp add: py_min_def min_def)
    have "\<forall>i<Suc k. least_gap bound n i = PInf
        \<or> (\<exists>h. least_gap bound n i = Fin h \<and> min b g \<le> h \<and> h \<le> max a g)"
    proof (intro allI impI)
      fix i assume "i < Suc k"
      then consider "i < k" | "i = k" by linarith
      then show "least_gap bound n i = PInf
        \<or> (\<exists>h. least_gap bound n i = Fin h \<and> min b g \<le> h \<and> h \<le> max a g)"
      proof cases
        case 1
        with some(5) have "least_gap bound n i = PInf
                  \<or> (\<exists>g. least_gap bound n i = Fin g \<and> b \<le> g \<and> g \<le> a)" by blast
        then show ?thesis by (auto simp: min_def max_def)
      next
        case 2
        then show ?thesis using g by simp
      qed
    qed
    moreover have "0 < min b g" "min b g \<le> max a g"
      using some g by (auto simp: min_def max_def)
    ultimately show ?thesis
      unfolding stats_ok_def mx mn by blast
  qed
qed

lemma gap_column_replicate:
  assumes "stats_ok bound n k mx mn"
  shows "\<exists>mx' mn'. gap_column bound n k (replicate n row, mx, mn)
            = (replicate n (row[k := column_value bound n k]), mx', mn')
          \<and> stats_ok bound n (Suc k) mx' mn'"
proof -
  consider "least_gap bound n k = PInf" | g where "0 < g" "least_gap bound n k = Fin g"
    using least_gap_ok [of bound n k] by (auto simp: gap_ok_def)
  then show ?thesis
  proof cases
    case 1
    then show ?thesis
      using stats_step_inf [OF assms 1]
      by (simp add: gap_column_def column_value_def feq_def set_column_replicate)
  next
    case 2
    then show ?thesis
      using stats_step_fin [OF assms 2(2) 2(1)]
      by (simp add: gap_column_def column_value_def feq_def set_column_replicate Let_def)
  qed
qed

lemma gap_columns_prefix:
  "k \<le> n \<Longrightarrow>
   \<exists>mx mn. fold (gap_column bound n) [0..<k] (zeros n n, Fin (- 1), PInf)
       = (replicate n (map (\<lambda>i. if i < k then column_value bound n i else Fin 0) [0..<n]),
          mx, mn)
     \<and> stats_ok bound n k mx mn"
proof (induction k)
  case 0
  have "replicate n (Fin 0) = map (\<lambda>i. Fin 0) [0..<n]"
    by (simp add: map_replicate_const)
  then show ?case
    by (simp add: zeros_def stats_ok_def)
next
  case (Suc k)
  then obtain mx mn where
    f: "fold (gap_column bound n) [0..<k] (zeros n n, Fin (- 1), PInf)
       = (replicate n (map (\<lambda>i. if i < k then column_value bound n i else Fin 0) [0..<n]),
          mx, mn)"
    and ok: "stats_ok bound n k mx mn"
    by auto
  let ?row = "map (\<lambda>i. if i < k then column_value bound n i else Fin 0) [0..<n]"
  obtain mx' mn' where
    g: "gap_column bound n k (replicate n ?row, mx, mn)
            = (replicate n (?row[k := column_value bound n k]), mx', mn')"
    and ok': "stats_ok bound n (Suc k) mx' mn'"
    using gap_column_replicate [OF ok] by blast
  have row: "?row[k := column_value bound n k]
      = map (\<lambda>i. if i < Suc k then column_value bound n i else Fin 0) [0..<n]"
    by (rule nth_equalityI) (auto simp: nth_list_update less_Suc_eq)
  show ?case
    using f g ok' row by simp
qed

lemma gap_columns_eq:
  "\<exists>mx mn. gap_columns bound n = (replicate n (map (column_value bound n) [0..<n]), mx, mn)
     \<and> stats_ok bound n n mx mn"
proof -
  have eq: "map (\<lambda>i. if i < n then column_value bound n i else Fin 0) [0..<n]
      = map (column_value bound n) [0..<n]"
    by (rule map_cong) auto
  show ?thesis
    using gap_columns_prefix [of n n bound] unfolding eq gap_columns_def by simp
qed

lemma clamp_column_replicate:
  assumes "0 < n" "i < length row"
  shows "clamp_column i (replicate n row) = replicate n (row[i := clamp_cell (row ! i)])"
proof -
  have "replicate n row = replicate n (row[i := row ! i])" by simp
  then show ?thesis
    using assms
    by (simp add: clamp_column_def clamp_cell_def set_column_replicate Let_def)
qed

lemma fold_clamp_prefix:
  assumes "0 < n" "length row = n"
  shows "k \<le> n \<Longrightarrow> fold clamp_column [0..<k] (replicate n row)
     = replicate n (map (\<lambda>i. if i < k then clamp_cell (row ! i) else row ! i) [0..<n])"
proof (induction k)
  case 0
  have "map (\<lambda>i. row ! i) [0..<length row] = row"
    by (rule map_nth)
  then show ?case using assms(2) by simp
next
  case (Suc k)
  let ?r = "map (\<lambda>i. if i < k then clamp_cell (row ! i) else row ! i) [0..<n]"
  have "?r[k := clamp_cell (?r ! k)]
      = map (\<lambda>i. if i < Suc k then clamp_cell (row ! i) else row ! i) [0..<n]"
    using Suc.prems by (intro nth_equalityI) (auto simp: nth_list_update less_Suc_eq)
  then show ?case
    using Suc assms clamp_column_replicate [of n k ?r] by simp
qed

lemma service_time_eq:
  assumes "0 < n"
  shows "\<exists>mx mn. stats_ok bound n n mx mn
     \<and> gap_columns bound n = (replicate n (map (column_value bound n) [0..<n]), mx, mn)
     \<and> service_time bound n
        = replicate n (map (\<lambda>i. clamp_cell (fdiv (fsub mx (column_value bound n i))
                                                   (fsub mx mn))) [0..<n])"
proof -
  obtain mx mn where
    g: "gap_columns bound n = (replicate n (map (column_value bound n) [0..<n]), mx, mn)"
    and ok: "stats_ok bound n n mx mn"
    using gap_columns_eq by blast
  let ?row = "map (\<lambda>i. fdiv (fsub mx (column_value bound n i)) (fsub mx mn)) [0..<n]"
  have s: "standardize (gap_columns bound n) = replicate n ?row"
    by (simp add: g standardize_def comp_def)
  have "fold clamp_column [0..<n] (replicate n ?row)
      = replicate n (map (\<lambda>i. if i < n then clamp_cell (?row ! i) else ?row ! i) [0..<n])"
    using fold_clamp_prefix [of n ?row n] assms by simp
  also have "map (\<lambda>i. if i < n then clamp_cell (?row ! i) else ?row ! i) [0..<n]
      = map (\<lambda>i. clamp_cell (fdiv (fsub mx (column_value bound n i)) (fsub mx mn))) [0..<n]"
    by simp
  finally have c: "fold clamp_column [0..<n] (replicate n ?row)
      = replicate n (map (\<lambda>i. clamp_cell (fdiv (fsub mx (column_value bound n i))
                                                   (fsub mx mn))) [0..<n])" .
  show ?thesis
    unfolding service_time_def s using g ok c by blast
qed


lemma clamp_fin:
  "clamp_cell (Fin x) = Fin (if 1 < x then 1 else if x = 0 then 1 / 1000 else x)"
  by (simp add: clamp_cell_def feq_def Let_def)

lemma standardized_unit:
  assumes ok: "stats_ok bound n n mx mn" and ne: "mx \<noteq> mn" and i: "i < n"
  shows "unit_pos (clamp_cell (fdiv (fsub mx (column_value bound n i)) (fsub mx mn)))"
proof -
  from ok consider
      (none) "\<forall>i<n. least_gap bound n i = PInf" "mx = Fin (- 1)" "mn = PInf"
    | (some) a b where "mx = Fin a" "mn = Fin b" "0 < b" "b \<le> a"
        "\<forall>i<n. least_gap bound n i = PInf
                  \<or> (\<exists>g. least_gap bound n i = Fin g \<and> b \<le> g \<and> g \<le> a)"
    unfolding stats_ok_def by blast
  then show ?thesis
  proof cases
    case none
    then show ?thesis
      using i by (simp add: column_value_def fsub_def clamp_fin)
  next
    case some
    have ab: "b < a" using some ne by auto
    from some(5) i consider "least_gap bound n i = PInf"
      | g where "least_gap bound n i = Fin g" "b \<le> g" "g \<le> a" by blast
    then show ?thesis
    proof cases
      case 1
      have "1 < a / (a - b)" using ab some(3) by (simp add: field_simps)
      then show ?thesis
        using 1 some ab by (simp add: column_value_def fsub_def clamp_fin)
    next
      case 2
      have "0 \<le> (a - g) / (a - b)" "(a - g) / (a - b) \<le> 1"
        using 2 ab by (simp_all add: field_simps)
      then show ?thesis
        using 2 some ab by (auto simp: column_value_def fsub_def clamp_fin)
    qed
  qed
qed

subsection \<open>The three matrices\<close>

lemma upt3: "[0..<3] = [0, 1, 2]"
  by (simp add: upt_rec)

lemma example_travel_cost:
  "travel_cost example_instance 3
     = Inr [[Fin 0, Fin 1, Fin 0], [Fin 1, Fin 0, Fin (1 / 2)], [Fin 0, Fin (1 / 2), Fin 0]]"
  by (simp add: travel_cost_def travel_cost_row_def travel_cost_cell_def standardizer_def
      example_instance_def upt3)

lemma example_gaps_l:
  "gap_columns (\<lambda>i. snd (time_windows example_instance i)) 3
     = ([[Fin 0, Fin 30, Fin 20], [Fin 0, Fin 30, Fin 20], [Fin 0, Fin 30, Fin 20]],
        Fin 30, Fin 20)"
  by (simp add: gap_columns_def gap_column_def least_gap_def gap_step_def set_column_def
      zeros_def py_min_def py_max_def feq_def example_instance_def upt3 Let_def numeral_3_eq_3)

lemma example_gaps_e:
  "gap_columns (\<lambda>i. fst (time_windows example_instance i)) 3
     = ([[Fin 10, Fin 20, Fin 0], [Fin 10, Fin 20, Fin 0], [Fin 10, Fin 20, Fin 0]],
        Fin 20, Fin 10)"
  by (simp add: gap_columns_def gap_column_def least_gap_def gap_step_def set_column_def
      zeros_def py_min_def py_max_def feq_def example_instance_def upt3 Let_def numeral_3_eq_3)

lemma example_service_l:
  "service_time (\<lambda>i. snd (time_windows example_instance i)) 3
     = [[Fin 1, Fin (1 / 1000), Fin 1], [Fin 1, Fin (1 / 1000), Fin 1],
        [Fin 1, Fin (1 / 1000), Fin 1]]"
  by (simp add: service_time_def example_gaps_l clamp_column_def standardize_def set_column_def
      feq_def fsub_def upt3 Let_def)

lemma example_service_e:
  "service_time (\<lambda>i. fst (time_windows example_instance i)) 3
     = [[Fin 1, Fin (1 / 1000), Fin 1], [Fin 1, Fin (1 / 1000), Fin 1],
        [Fin 1, Fin (1 / 1000), Fin 1]]"
  by (simp add: service_time_def example_gaps_e clamp_column_def standardize_def set_column_def
      feq_def fsub_def upt3 Let_def)

lemma example_attributes:
  "heuristic_attributes example_instance 3
     = Inr ([[Fin 0, Fin 1, Fin 0], [Fin 1, Fin 0, Fin (1 / 2)], [Fin 0, Fin (1 / 2), Fin 0]],
            [[Fin 1, Fin (1 / 1000), Fin 1], [Fin 1, Fin (1 / 1000), Fin 1],
        [Fin 1, Fin (1 / 1000), Fin 1]],
            [[Fin 1, Fin (1 / 1000), Fin 1], [Fin 1, Fin (1 / 1000), Fin 1],
        [Fin 1, Fin (1 / 1000), Fin 1]])"
  by (simp add: heuristic_attributes_def example_travel_cost example_service_l
      example_service_e)

lemma spaced_travel_cost:
  "travel_cost spaced_instance 3
     = Inr [[Fin 0, Fin 1, Fin 0], [Fin 1, Fin 0, Fin (1 / 2)], [Fin 0, Fin (1 / 2), Fin 0]]"
  by (simp add: travel_cost_def travel_cost_row_def travel_cost_cell_def standardizer_def
      spaced_instance_def upt3)

lemma spaced_gaps_l:
  "gap_columns (\<lambda>i. snd (time_windows spaced_instance i)) 3
     = ([[Fin 10, Fin 10, Fin 0], [Fin 10, Fin 10, Fin 0], [Fin 10, Fin 10, Fin 0]],
        Fin 10, Fin 10)"
  by (simp add: gap_columns_def gap_column_def least_gap_def gap_step_def set_column_def
      zeros_def py_min_def py_max_def feq_def spaced_instance_def upt3 Let_def numeral_3_eq_3)

lemma spaced_gaps_e:
  "gap_columns (\<lambda>i. fst (time_windows spaced_instance i)) 3
     = ([[Fin 10, Fin 10, Fin 0], [Fin 10, Fin 10, Fin 0], [Fin 10, Fin 10, Fin 0]],
        Fin 10, Fin 10)"
  by (simp add: gap_columns_def gap_column_def least_gap_def gap_step_def set_column_def
      zeros_def py_min_def py_max_def feq_def spaced_instance_def upt3 Let_def numeral_3_eq_3)

lemma spaced_service_l:
  "service_time (\<lambda>i. snd (time_windows spaced_instance i)) 3
     = [[NaN, NaN, Fin 1], [NaN, NaN, Fin 1], [NaN, NaN, Fin 1]]"
  by (simp add: service_time_def spaced_gaps_l clamp_column_def standardize_def set_column_def
      feq_def fsub_def upt3 Let_def)

lemma spaced_service_e:
  "service_time (\<lambda>i. fst (time_windows spaced_instance i)) 3
     = [[NaN, NaN, Fin 1], [NaN, NaN, Fin 1], [NaN, NaN, Fin 1]]"
  by (simp add: service_time_def spaced_gaps_e clamp_column_def standardize_def set_column_def
      feq_def fsub_def upt3 Let_def)

lemma spaced_attributes:
  "heuristic_attributes spaced_instance 3
     = Inr ([[Fin 0, Fin 1, Fin 0], [Fin 1, Fin 0, Fin (1 / 2)], [Fin 0, Fin (1 / 2), Fin 0]],
            [[NaN, NaN, Fin 1], [NaN, NaN, Fin 1], [NaN, NaN, Fin 1]],
            [[NaN, NaN, Fin 1], [NaN, NaN, Fin 1], [NaN, NaN, Fin 1]])"
  by (simp add: heuristic_attributes_def spaced_travel_cost spaced_service_l spaced_service_e)

lemma example_standardized_l:
  "standardize (gap_columns (\<lambda>i. snd (time_windows example_instance i)) 3)
     = [[Fin 3, Fin 0, Fin 1], [Fin 3, Fin 0, Fin 1], [Fin 3, Fin 0, Fin 1]]"
  by (simp add: example_gaps_l standardize_def fsub_def)

lemma example_standardized_e:
  "standardize (gap_columns (\<lambda>i. fst (time_windows example_instance i)) 3)
     = [[Fin 1, Fin 0, Fin 2], [Fin 1, Fin 0, Fin 2], [Fin 1, Fin 0, Fin 2]]"
  by (simp add: example_gaps_e standardize_def fsub_def)

lemma travel_cost_diagonal:
  assumes "travel_cost t n = Inr c" "i < n"
  shows "c ! i ! i = Fin 0"
proof -
  have "travel_cost_row t n i = Inr (c ! i)"
    using collect_Inr_nth [of "travel_cost_row t n" "[0..<n]" c i] assms
    by (simp add: travel_cost_def)
  then obtain row where row: "collect (travel_cost_cell t i) [0..<n] = Inr row"
    and ci: "c ! i = row[i := Fin 0]"
    by (auto simp: travel_cost_row_def split: sum.splits)
  have "length row = n"
    using collect_Inr_length [OF row] by simp
  then show ?thesis
    using ci assms(2) by simp
qed

lemma service_time_unit:
  assumes ne: "gap_max bound n \<noteq> gap_min bound n" and i: "i < n" and j: "j < n"
  shows "unit_pos (service_time bound n ! i ! j)"
proof -
  have n: "0 < n" using i by simp
  obtain mx mn where ok: "stats_ok bound n n mx mn"
    and g: "gap_columns bound n = (replicate n (map (column_value bound n) [0..<n]), mx, mn)"
    and s: "service_time bound n
        = replicate n (map (\<lambda>i. clamp_cell (fdiv (fsub mx (column_value bound n i))
                                                   (fsub mx mn))) [0..<n])"
    using service_time_eq [OF n, of bound] by blast
  have "mx \<noteq> mn"
    using ne by (simp add: gap_max_def gap_min_def g)
  then show ?thesis
    using standardized_unit [OF ok _ j] i j by (simp add: s)
qed

lemma travel_cost_cell_of:
  assumes c: "travel_cost t n = Inr c" and i: "i < n" and j: "j < n" and ne: "i \<noteq> j"
  shows "\<exists>w. edge_weight t (i, j) = Some w
           \<and> c ! i ! j = Fin ((distance_max t - w) / standardizer t)"
proof -
  have "travel_cost_row t n i = Inr (c ! i)"
    using collect_Inr_nth [of "travel_cost_row t n" "[0..<n]" c i] c i
    by (simp add: travel_cost_def)
  then obtain row where row: "collect (travel_cost_cell t i) [0..<n] = Inr row"
    and ci: "c ! i = row[i := Fin 0]"
    by (auto simp: travel_cost_row_def split: sum.splits)
  have "travel_cost_cell t i j = Inr (row ! j)"
    using collect_Inr_nth [OF row, of j] j by simp
  then show ?thesis
    using ci ne by (auto simp: travel_cost_cell_def split: option.splits)
qed

lemma travel_cost_unit:
  assumes c: "travel_cost t n = Inr c"
    and w: "\<forall>i<n. \<forall>j<n. i \<noteq> j \<longrightarrow>
              (\<forall>w. edge_weight t (i, j) = Some w \<longrightarrow> distance_min t \<le> w \<and> w \<le> distance_max t)"
    and i: "i < n" and j: "j < n"
  shows "unit_closed (c ! i ! j)"
proof (cases "i = j")
  case True
  then show ?thesis using travel_cost_diagonal [OF c i] by simp
next
  case False
  obtain x where x: "edge_weight t (i, j) = Some x"
    "c ! i ! j = Fin ((distance_max t - x) / standardizer t)"
    using travel_cost_cell_of [OF c i j False] by blast
  have b: "distance_min t \<le> x" "x \<le> distance_max t"
    using w i j False x(1) by auto
  have "0 \<le> (distance_max t - x) / standardizer t
      \<and> (distance_max t - x) / standardizer t \<le> 1"
  proof (cases "distance_max t - distance_min t > 0")
    case True
    then have "standardizer t = distance_max t - distance_min t"
      by (simp add: standardizer_def)
    then show ?thesis using True b by (simp add: field_simps)
  next
    case False
    then have "standardizer t = 1" "x = distance_max t"
      using b by (simp_all add: standardizer_def)
    then show ?thesis by simp
  qed
  then show ?thesis using x(2) by simp
qed

lemma clamp_cell_clamped: "clamped x (clamp_cell x)"
  by (cases x) (auto simp: clamped_def clamp_cell_def feq_def Let_def)

lemma service_time_clamp:
  assumes i: "i < n" and j: "j < n"
  shows "service_time bound n ! i ! j = clamp_cell (standardize (gap_columns bound n) ! i ! j)"
proof -
  have n: "0 < n" using i by simp
  obtain mx mn where
    g: "gap_columns bound n = (replicate n (map (column_value bound n) [0..<n]), mx, mn)"
    and s: "service_time bound n
        = replicate n (map (\<lambda>i. clamp_cell (fdiv (fsub mx (column_value bound n i))
                                                   (fsub mx mn))) [0..<n])"
    using service_time_eq [OF n, of bound] by blast
  have "standardize (gap_columns bound n)
      = replicate n (map (\<lambda>i. fdiv (fsub mx (column_value bound n i)) (fsub mx mn)) [0..<n])"
    by (simp add: g standardize_def comp_def)
  then show ?thesis
    using i j by (simp add: s)
qed

text \<open>
  C7, as stated: every cell of \<open>c\<close>, \<open>l\<close> and \<open>e\<close> lies in \<open>(0, 1]\<close>. It fails
  for \<open>c\<close>, which lines 136 to 143 never touch: on the example its diagonal cell
  \<open>(0, 0)\<close> is 0, and so is its cell \<open>(0, 2)\<close>, of the longest edge. It fails
  for \<open>l\<close> and \<open>e\<close> on the evenly spaced time windows, where the greatest and
  the least gap are equal and lines 133 and 134 divide zero by zero: the cell
  \<open>(0, 0)\<close> of both is not a number, which neither test of lines 136 to 143
  catches.
\<close>

theorem attributes_unit_counterexample:
  "(case heuristic_attributes example_instance 3 of
      Inl err \<Rightarrow> False
    | Inr (c, l, e) \<Rightarrow> c ! 0 ! 0 = Fin 0 \<and> \<not> unit_pos (c ! 0 ! 0)
        \<and> c ! 0 ! 2 = Fin 0 \<and> \<not> unit_pos (c ! 0 ! 2))
   \<and> (case heuristic_attributes spaced_instance 3 of
      Inl err \<Rightarrow> False
    | Inr (c, l, e) \<Rightarrow> l ! 0 ! 0 = NaN \<and> \<not> unit_pos (l ! 0 ! 0)
        \<and> e ! 0 ! 0 = NaN \<and> \<not> unit_pos (e ! 0 ! 0))"
  by (simp add: example_attributes spaced_attributes)

text \<open>
  C7, amended: \<open>c\<close> has a zero diagonal, and every cell of \<open>c\<close> lies in
  \<open>[0, 1]\<close>, 0 included, when the weight of every edge between two distinct
  nodes lies between \<^verbatim>\<open>distance_min\<close> and \<^verbatim>\<open>distance_max\<close>. Every cell of
  \<open>l\<close>, and of \<open>e\<close>, is the standardized value of lines 133 and 134 after the
  rule of lines 136 to 143: clamped to 1.0 when it is above 1, floored to 0.001
  when it is exactly 0, kept otherwise. It lies in \<open>(0, 1]\<close> when the greatest
  and the least gap of that matrix differ, that is when the divisor of line 134,
  or 133, is not zero.
\<close>

theorem attributes_range:
  assumes "heuristic_attributes t n = Inr (c, l, e)"
  shows "(\<forall>i<n. c ! i ! i = Fin 0)
    \<and> ((\<forall>i<n. \<forall>j<n. i \<noteq> j \<longrightarrow>
           (\<forall>w. edge_weight t (i, j) = Some w \<longrightarrow> distance_min t \<le> w \<and> w \<le> distance_max t))
         \<longrightarrow> (\<forall>i<n. \<forall>j<n. unit_closed (c ! i ! j)))
    \<and> (\<forall>i<n. \<forall>j<n.
          clamped (standardize (gap_columns (\<lambda>i. snd (time_windows t i)) n) ! i ! j) (l ! i ! j)
        \<and> clamped (standardize (gap_columns (\<lambda>i. fst (time_windows t i)) n) ! i ! j) (e ! i ! j))
    \<and> (gap_max (\<lambda>i. snd (time_windows t i)) n \<noteq> gap_min (\<lambda>i. snd (time_windows t i)) n
         \<longrightarrow> (\<forall>i<n. \<forall>j<n. unit_pos (l ! i ! j)))
    \<and> (gap_max (\<lambda>i. fst (time_windows t i)) n \<noteq> gap_min (\<lambda>i. fst (time_windows t i)) n
         \<longrightarrow> (\<forall>i<n. \<forall>j<n. unit_pos (e ! i ! j)))"
proof -
  from assms have c: "travel_cost t n = Inr c"
    and l: "l = service_time (\<lambda>i. snd (time_windows t i)) n"
    and e: "e = service_time (\<lambda>i. fst (time_windows t i)) n"
    by (auto simp: heuristic_attributes_def split: sum.splits)
  have 1: "\<forall>i<n. c ! i ! i = Fin 0"
    using travel_cost_diagonal [OF c] by blast
  have 2: "(\<forall>i<n. \<forall>j<n. i \<noteq> j \<longrightarrow>
           (\<forall>w. edge_weight t (i, j) = Some w \<longrightarrow> distance_min t \<le> w \<and> w \<le> distance_max t))
         \<longrightarrow> (\<forall>i<n. \<forall>j<n. unit_closed (c ! i ! j))"
    using travel_cost_unit [OF c] by blast
  have 3: "\<forall>i<n. \<forall>j<n.
          clamped (standardize (gap_columns (\<lambda>i. snd (time_windows t i)) n) ! i ! j) (l ! i ! j)
        \<and> clamped (standardize (gap_columns (\<lambda>i. fst (time_windows t i)) n) ! i ! j) (e ! i ! j)"
    unfolding l e by (simp add: service_time_clamp clamp_cell_clamped)
  have 4: "gap_max (\<lambda>i. snd (time_windows t i)) n \<noteq> gap_min (\<lambda>i. snd (time_windows t i)) n
         \<longrightarrow> (\<forall>i<n. \<forall>j<n. unit_pos (l ! i ! j))"
    unfolding l using service_time_unit by blast
  have 5: "gap_max (\<lambda>i. fst (time_windows t i)) n \<noteq> gap_min (\<lambda>i. fst (time_windows t i)) n
         \<longrightarrow> (\<forall>i<n. \<forall>j<n. unit_pos (e ! i ! j))"
    unfolding e using service_time_unit by blast
  show ?thesis using 1 2 3 4 5 by blast
qed

theorem attributes_range_witness:
  "heuristic_attributes example_instance 3
     = Inr ([[Fin 0, Fin 1, Fin 0], [Fin 1, Fin 0, Fin (1 / 2)], [Fin 0, Fin (1 / 2), Fin 0]],
            [[Fin 1, Fin (1 / 1000), Fin 1], [Fin 1, Fin (1 / 1000), Fin 1],
        [Fin 1, Fin (1 / 1000), Fin 1]],
            [[Fin 1, Fin (1 / 1000), Fin 1], [Fin 1, Fin (1 / 1000), Fin 1],
        [Fin 1, Fin (1 / 1000), Fin 1]])
   \<and> distance_min example_instance = 2 \<and> distance_max example_instance = 4
   \<and> edge_weight example_instance (0, 1) = Some 2
   \<and> edge_weight example_instance (0, 2) = Some 4
   \<and> edge_weight example_instance (1, 2) = Some 3
   \<and> edge_weight example_instance (1, 0) = Some 2
   \<and> edge_weight example_instance (2, 0) = Some 4
   \<and> edge_weight example_instance (2, 1) = Some 3
   \<and> unit_closed ([[Fin 0, Fin 1, Fin 0], [Fin 1, Fin 0, Fin (1 / 2)],
        [Fin 0, Fin (1 / 2), Fin 0]] ! 1 ! 2)
   \<and> standardize (gap_columns (\<lambda>i. snd (time_windows example_instance i)) 3)
        = [[Fin 3, Fin 0, Fin 1], [Fin 3, Fin 0, Fin 1], [Fin 3, Fin 0, Fin 1]]
   \<and> standardize (gap_columns (\<lambda>i. fst (time_windows example_instance i)) 3)
        = [[Fin 1, Fin 0, Fin 2], [Fin 1, Fin 0, Fin 2], [Fin 1, Fin 0, Fin 2]]
   \<and> flt (Fin 1) (Fin 3) \<and> clamped (Fin 3) (Fin 1)
   \<and> feq (Fin 0) (Fin 0) \<and> clamped (Fin 0) (Fin (1 / 1000))
   \<and> \<not> flt (Fin 1) (Fin 1) \<and> \<not> feq (Fin 1) (Fin 0) \<and> clamped (Fin 1) (Fin 1)
   \<and> gap_max (\<lambda>i. snd (time_windows example_instance i)) 3 = Fin 30
   \<and> gap_min (\<lambda>i. snd (time_windows example_instance i)) 3 = Fin 20
   \<and> gap_max (\<lambda>i. fst (time_windows example_instance i)) 3 = Fin 20
   \<and> gap_min (\<lambda>i. fst (time_windows example_instance i)) 3 = Fin 10
   \<and> unit_pos ([[Fin 1, Fin (1 / 1000), Fin 1], [Fin 1, Fin (1 / 1000), Fin 1],
        [Fin 1, Fin (1 / 1000), Fin 1]] ! 2 ! 1)"
proof -
  have w: "distance_min example_instance = 2 \<and> distance_max example_instance = 4
     \<and> edge_weight example_instance (0, 1) = Some 2
     \<and> edge_weight example_instance (0, 2) = Some 4
     \<and> edge_weight example_instance (1, 2) = Some 3
     \<and> edge_weight example_instance (1, 0) = Some 2
     \<and> edge_weight example_instance (2, 0) = Some 4
     \<and> edge_weight example_instance (2, 1) = Some 3"
    by (simp add: example_instance_def)
  have k: "flt (Fin 1) (Fin 3) \<and> clamped (Fin 3) (Fin 1)
     \<and> feq (Fin 0) (Fin 0) \<and> clamped (Fin 0) (Fin (1 / 1000))
     \<and> \<not> flt (Fin 1) (Fin 1) \<and> \<not> feq (Fin 1) (Fin 0) \<and> clamped (Fin 1) (Fin 1)"
    by (simp add: clamped_def feq_def)
  have g: "gap_max (\<lambda>i. snd (time_windows example_instance i)) 3 = Fin 30
     \<and> gap_min (\<lambda>i. snd (time_windows example_instance i)) 3 = Fin 20
     \<and> gap_max (\<lambda>i. fst (time_windows example_instance i)) 3 = Fin 20
     \<and> gap_min (\<lambda>i. fst (time_windows example_instance i)) 3 = Fin 10"
    by (simp add: gap_max_def gap_min_def example_gaps_l example_gaps_e)
  show ?thesis
    using attributes_range [OF example_attributes] w k g
    by (simp add: example_attributes example_standardized_l example_standardized_e)
qed

subsection \<open>The restart policy\<close>

lemma trial_ops_length: "length (trial_ops b cfs) = length cfs"
  by (induction cfs arbitrary: b) (auto simp: restart_decision_def Let_def)

lemma trial_ops_nth:
  "k < length cfs \<Longrightarrow>
   trial_ops b cfs ! k =
     (let flag = (b \<noteq> odd (high_checks cfs k)); high = (cfs ! k > 99 / 100)
      in if flag \<and> high then ResetUniform else UpdateValues (flag \<or> high))"
proof (induction cfs arbitrary: b k)
  case Nil
  then show ?case by simp
next
  case (Cons cf cfs)
  show ?case
  proof (cases k)
    case 0
    then show ?thesis
      by (auto simp: restart_decision_def high_checks_def Let_def)
  next
    case (Suc j)
    with Cons.prems have j: "j < length cfs" by simp
    show ?thesis
      using Cons.IH [OF j] Suc
      by (auto simp: restart_decision_def high_checks_def Let_def)
  qed
qed

text \<open>
  C9, as stated: the matrix is reset at a check exactly when the factor exceeds
  0.99 at this check and at the one just before. It fails: with the factors
  1, 0.5, 1 the third check resets although the second one was below 0.99.
\<close>

theorem reset_two_consecutive_counterexample:
  "trial_ops False [1, 1 / 2, 1] ! 2 = ResetUniform
   \<and> \<not> ([1, 1 / 2, 1 :: real] ! 1 > 99 / 100)
   \<and> trial_ops False [1, 1 / 2, 1] ! 1 = UpdateValues True"
  by (simp add: restart_decision_def)

text \<open>
  C9, amended: the flag is a toggle over the checks whose factor exceeds 0.99,
  consecutive or not. The matrix is reset at check \<open>k\<close> exactly when the factor
  exceeds 0.99 there and an odd number of earlier checks of the trial exceeded it
  (the flag is then set); at every other check the update is applied, with the
  flag that is set when this check or an odd number of earlier ones exceeded 0.99.
\<close>

theorem reset_toggle:
  assumes "k < length cfs"
  shows "(trial_ops False cfs ! k = ResetUniform
            \<longleftrightarrow> cfs ! k > 99 / 100 \<and> odd (high_checks cfs k))
         \<and> (trial_ops False cfs ! k \<noteq> ResetUniform
            \<longrightarrow> trial_ops False cfs ! k
                = UpdateValues (cfs ! k > 99 / 100 \<or> odd (high_checks cfs k)))"
  using trial_ops_nth [OF assms, of False]
  by (auto simp: Let_def)

theorem reset_toggle_witness:
  "trial_ops False [1, 1 / 2, 1, 1] ! 2 = ResetUniform
   \<and> trial_ops False [1, 1 / 2, 1, 1] ! 1 = UpdateValues True
   \<and> trial_ops False [1, 1 / 2, 1, 1] ! 3 = UpdateValues True"
  using reset_toggle [of 2 "[1, 1 / 2, 1, 1]"] reset_toggle [of 1 "[1, 1 / 2, 1, 1]"]
        reset_toggle [of 3 "[1, 1 / 2, 1, 1]"]
  by (simp add: high_checks_def)

subsection \<open>The pheromone store\<close>

lemma reset_half: "all_half (resetUniformPheromoneValues a)"
  by (simp add: all_half_def resetUniformPheromoneValues_def list_all_iff)

lemma reset_fields:
  "tau_min (resetUniformPheromoneValues a) = tau_min a"
  "tau_max (resetUniformPheromoneValues a) = tau_max a"
  by (simp_all add: resetUniformPheromoneValues_def)

lemma update_fields:
  "tau_min (updatePheromoneValues s a u cf ib rb bf) = tau_min a"
  "tau_max (updatePheromoneValues s a u cf ib rb bf) = tau_max a"
  by (simp_all add: updatePheromoneValues_def)

lemma reset_in_bounds:
  "tau_min a \<le> 1 / 2 \<Longrightarrow> 1 / 2 \<le> tau_max a \<Longrightarrow> in_bounds (resetUniformPheromoneValues a)"
  by (simp add: in_bounds_def resetUniformPheromoneValues_def list_all_iff)

lemma update_in_bounds:
  "tau_min a \<le> tau_max a \<Longrightarrow> in_bounds (updatePheromoneValues s a u cf ib rb bf)"
  by (auto simp: in_bounds_def updatePheromoneValues_def list_all_iff clamp_def)

lemma step_fields:
  "tau_min (ant_step s a c) = tau_min a" "tau_max (ant_step s a c) = tau_max a"
  by (cases c; simp add: reset_fields update_fields)+

lemma step_in_bounds:
  "tau_min a \<le> 1 / 2 \<Longrightarrow> 1 / 2 \<le> tau_max a \<Longrightarrow> in_bounds (ant_step s a c)"
  by (cases c) (simp_all add: reset_in_bounds update_in_bounds)

lemma trace_in_bounds:
  "tau_min a \<le> 1 / 2 \<Longrightarrow> 1 / 2 \<le> tau_max a \<Longrightarrow> list_all in_bounds (ant_trace s a cs)"
  by (induction cs arbitrary: a) (simp_all add: step_in_bounds step_fields)

text \<open>
  C3. Whatever calls the trial loop makes on its store, with whatever arguments,
  every cell lies in \<open>[\<tau>_min, \<tau>_max]\<close> after each call; and a reset leaves 0.5 in
  every cell.
\<close>

theorem pheromone_bounds:
  "list_all in_bounds (ant_trace s (solve_ant n p) cs)
   \<and> all_half (resetUniformPheromoneValues (solve_ant n p))"
  by (simp add: trace_in_bounds reset_half solve_ant_def)

theorem pheromone_bounds_witness:
  "in_bounds (ant_step (\<lambda>b cf. (1, 0, 0))
       (resetUniformPheromoneValues (solve_ant 2 [[0, 0], [0, 0]]))
       (Update False 0 (Some [0, 1, 0]) None None))
   \<and> all_half (resetUniformPheromoneValues (solve_ant 2 [[0, 0], [0, 0]]))"
  using pheromone_bounds [of "\<lambda>b cf. (1, 0, 0)" 2 "[[0, 0], [0, 0]]"
      "[Reset, Update False 0 (Some [0, 1, 0]) None None]"]
    pheromone_bounds [of "\<lambda>b cf. (1, 0, 0)" 2 "[[0, 0], [0, 0]]" "[]"]
  by simp

subsection \<open>Stochastic sampling\<close>

lemma argmax_scan_fin:
  "argmax_scan (map Fin xs) i (Fin m) mi = r \<Longrightarrow>
     (r = mi \<and> (\<forall>x\<in>set xs. x \<le> m))
   \<or> (\<exists>t<length xs. r = i + t \<and> m < xs ! t \<and> (\<forall>u<length xs. xs ! u \<le> xs ! t)
          \<and> (\<forall>u<t. xs ! u < xs ! t))"
proof (induction xs arbitrary: i m mi)
  case Nil
  then show ?case by simp
next
  case (Cons x xs)
  show ?case
  proof (cases "x \<le> m")
    case True
    then have "argmax_scan (map Fin xs) (Suc i) (Fin m) mi = r"
      using Cons.prems by (auto simp: fle_def feq_def)
    from Cons.IH [OF this] show ?thesis
    proof (elim disjE exE conjE)
      assume "r = mi" "\<forall>x\<in>set xs. x \<le> m"
      then show ?thesis using True by simp
    next
      fix t assume t: "t < length xs" "r = Suc i + t" "m < xs ! t"
        "\<forall>u<length xs. xs ! u \<le> xs ! t" "\<forall>u<t. xs ! u < xs ! t"
      have "\<forall>u<length (x # xs). (x # xs) ! u \<le> (x # xs) ! Suc t"
        using t True by (auto simp: nth_Cons split: nat.splits)
      moreover have "\<forall>u<Suc t. (x # xs) ! u < (x # xs) ! Suc t"
        using t True by (auto simp: nth_Cons split: nat.splits)
      ultimately show ?thesis
        using t by (intro disjI2 exI [of _ "Suc t"]) simp
    qed
  next
    case False
    then have "argmax_scan (map Fin xs) (Suc i) (Fin x) i = r"
      using Cons.prems by (auto simp: fle_def feq_def)
    from Cons.IH [OF this] show ?thesis
    proof (elim disjE exE conjE)
      assume "r = i" "\<forall>y\<in>set xs. y \<le> x"
      then have "\<forall>u<length (x # xs). (x # xs) ! u \<le> (x # xs) ! 0"
        by (auto simp: nth_Cons split: nat.splits)
      then show ?thesis
        using False \<open>r = i\<close> by (intro disjI2 exI [of _ 0]) simp
    next
      fix t assume t: "t < length xs" "r = Suc i + t" "x < xs ! t"
        "\<forall>u<length xs. xs ! u \<le> xs ! t" "\<forall>u<t. xs ! u < xs ! t"
      have "\<forall>u<length (x # xs). (x # xs) ! u \<le> (x # xs) ! Suc t"
        using t by (auto simp: nth_Cons split: nat.splits)
      moreover have "\<forall>u<Suc t. (x # xs) ! u < (x # xs) ! Suc t"
        using t by (auto simp: nth_Cons split: nat.splits)
      ultimately show ?thesis
        using t False by (intro disjI2 exI [of _ "Suc t"]) simp
    qed
  qed
qed

lemma np_argmax_first_max:
  assumes "xs \<noteq> []"
  shows "\<exists>j. np_argmax (map Fin xs) = Inr j \<and> j < length xs
           \<and> (\<forall>i<length xs. xs ! i \<le> xs ! j) \<and> (\<forall>i<j. xs ! i < xs ! j)"
proof -
  obtain x ys where xs: "xs = x # ys"
    using assms by (cases xs) auto
  let ?r = "argmax_scan (map Fin ys) 1 (Fin x) 0"
  have r: "np_argmax (map Fin xs) = Inr ?r"
    by (simp add: np_argmax_def xs)
  from argmax_scan_fin [of ys 1 x 0 ?r]
  have "(?r = 0 \<and> (\<forall>y\<in>set ys. y \<le> x))
   \<or> (\<exists>t<length ys. ?r = 1 + t \<and> x < ys ! t \<and> (\<forall>u<length ys. ys ! u \<le> ys ! t)
          \<and> (\<forall>u<t. ys ! u < ys ! t))"
    by simp
  then show ?thesis
  proof (elim disjE exE conjE)
    assume a: "?r = 0" "\<forall>y\<in>set ys. y \<le> x"
    then have "\<forall>i<length xs. xs ! i \<le> xs ! 0"
      by (auto simp: xs nth_Cons split: nat.splits)
    then show ?thesis
      using r a(1) xs by simp
  next
    fix t assume t: "t < length ys" "?r = 1 + t" "x < ys ! t"
      "\<forall>u<length ys. ys ! u \<le> ys ! t" "\<forall>u<t. ys ! u < ys ! t"
    have "\<forall>i<length xs. xs ! i \<le> xs ! Suc t"
      using t by (auto simp: xs nth_Cons split: nat.splits)
    moreover have "\<forall>i<Suc t. xs ! i < xs ! Suc t"
      using t by (auto simp: xs nth_Cons split: nat.splits)
    ultimately show ?thesis
      using r t(1,2) xs by simp
  qed
qed


lemma finite_list_Fin: "finite_list (map Fin ps) = Some ps"
  by (induction ps) auto

lemma py_sum_fold: "foldl fadd (Fin a) (map Fin xs) = Fin (a + sum_list xs)"
  by (induction xs arbitrary: a) (auto simp: add.assoc)

lemma py_sum_Fin: "py_sum (map Fin xs) = Fin (sum_list xs)"
  by (simp add: py_sum_def py_sum_fold)

lemma cumsum_length: "length (cumsum a ps) = length ps"
  by (induction ps arbitrary: a) auto

lemma cumsum_nth: "i < length ps \<Longrightarrow> cumsum a ps ! i = a + sum_list (take (Suc i) ps)"
proof (induction ps arbitrary: a i)
  case Nil
  then show ?case by simp
next
  case (Cons p ps)
  then show ?case by (cases i) (auto simp: add.assoc)
qed

lemma cumsum_last: "ps \<noteq> [] \<Longrightarrow> last (cumsum a ps) = a + sum_list ps"
proof (induction ps arbitrary: a)
  case Nil
  then show ?case by simp
next
  case (Cons p ps)
  show ?case
  proof (cases "ps = []")
    case True
    then show ?thesis by simp
  next
    case False
    then have "cumsum (a + p) ps \<noteq> []"
      using cumsum_length [of "a + p" ps] by auto
    then show ?thesis
      using Cons.IH [OF False, of "a + p"] by (simp add: add.assoc)
  qed
qed

lemma sum_list_divide: "sum_list (map (\<lambda>x. x / c) xs) = sum_list xs / (c::real)"
  by (induction xs) (auto simp: add_divide_distrib)

lemma np_choice_interval:
  assumes ne: "ps \<noteq> []" and nonneg: "\<forall>x\<in>set ps. 0 \<le> x" and one: "sum_list ps = 1"
    and u: "0 \<le> u" "u < 1"
  shows "\<exists>j. np_choice (map Fin ps) u = Inr j \<and> j < length ps
           \<and> sum_list (take j ps) \<le> u \<and> u < sum_list (take (Suc j) ps)"
proof -
  let ?cdf = "cumsum 0 ps"
  let ?idx = "length (takeWhile (\<lambda>c. c \<le> u) ?cdf)"
  have last1: "last ?cdf = 1"
    using cumsum_last [OF ne, of 0] one by simp
  have cdf_ne: "?cdf \<noteq> []"
    using ne cumsum_length [of 0 ps] by auto
  have idx_lt: "?idx < length ps"
  proof (rule ccontr)
    assume "\<not> ?idx < length ps"
    then have "?idx = length ?cdf"
      using length_takeWhile_le [of "\<lambda>c. c \<le> u" ?cdf] by (simp add: cumsum_length)
    moreover have "length (takeWhile (\<lambda>c. c \<le> u) ?cdf)
        + length (dropWhile (\<lambda>c. c \<le> u) ?cdf) = length ?cdf"
      by (metis length_append takeWhile_dropWhile_id)
    ultimately have "dropWhile (\<lambda>c. c \<le> u) ?cdf = []"
      by simp
    then have "\<forall>c\<in>set ?cdf. c \<le> u"
      by (simp add: dropWhile_eq_Nil_conv)
    then have "last ?cdf \<le> u"
      using cdf_ne last_in_set by blast
    then show False using last1 u by simp
  qed
  have below: "sum_list (take ?idx ps) \<le> u"
  proof (cases ?idx)
    case 0
    then show ?thesis using u by simp
  next
    case (Suc i)
    then have i: "i < ?idx" by simp
    have "takeWhile (\<lambda>c. c \<le> u) ?cdf ! i \<in> set (takeWhile (\<lambda>c. c \<le> u) ?cdf)"
      using i by simp
    then have "takeWhile (\<lambda>c. c \<le> u) ?cdf ! i \<le> u"
      using set_takeWhileD by fastforce
    moreover have "takeWhile (\<lambda>c. c \<le> u) ?cdf ! i = ?cdf ! i"
      using i by (rule takeWhile_nth)
    moreover have "?cdf ! i = sum_list (take (Suc i) ps)"
      using cumsum_nth [of i ps 0] i idx_lt by simp
    ultimately show ?thesis using Suc by simp
  qed
  have above: "u < sum_list (take (Suc ?idx) ps)"
  proof -
    have "?idx < length ?cdf" using idx_lt by (simp add: cumsum_length)
    then have "\<not> ?cdf ! ?idx \<le> u"
      by (rule nth_length_takeWhile)
    then show ?thesis
      using cumsum_nth [of ?idx ps 0] idx_lt by simp
  qed
  have "\<not> list_ex (\<lambda>x. x < 0) ps"
    using nonneg by (auto simp: list_ex_iff)
  then have "np_choice (map Fin ps) u = Inr ?idx"
    using ne one idx_lt by (simp add: np_choice_def finite_list_Fin last1 Let_def)
  then show ?thesis
    using idx_lt below above by blast
qed


lemma mat_mul_row:
  assumes "i < length A" "i < length B" "A ! i = map Fin xs" "B ! i = map Fin ys"
  shows "mat_mul A B ! i = map Fin (products xs ys)"
proof -
  have "mat_mul A B ! i = map2 fmul (A ! i) (B ! i)"
    using assms(1,2) by (simp add: mat_mul_def)
  also have "\<dots> = map Fin (products xs ys)"
    unfolding assms(3,4) products_def
    by (induction xs ys rule: list_induct2') auto
  finally show ?thesis .
qed

lemma normalised:
  assumes "S \<noteq> 0"
  shows "map (\<lambda>x. fdiv x (Fin S)) (map Fin te) = map Fin (map (\<lambda>x. x / S) te)"
  using assms by simp

text \<open>
  C4. Let the pheromone row and the heuristic row of the last node hold finite
  values \<open>\<tau>\<^sub>j\<close> and \<open>\<eta>\<^sub>j\<close>. With the first draw \<open>q\<close> at most
  \<^verbatim>\<open>determinism_rate\<close>, the sampling returns the first index at which
  \<open>\<tau>\<^sub>j * \<eta>\<^sub>j\<close> is greatest. Otherwise, the products being non-negative with a
  positive sum \<open>S\<close>, it returns the index \<open>j\<close> whose interval
  \<open>[(\<Sum>i<j. \<tau>\<^sub>i * \<eta>\<^sub>i) / S, (\<Sum>i\<le>j. \<tau>\<^sub>i * \<eta>\<^sub>i) / S)\<close>, of length
  \<open>\<tau>\<^sub>j * \<eta>\<^sub>j / S\<close>, holds the second draw: \<open>j\<close> is drawn with this probability.
\<close>

theorem stochastic_sampling_rule:
  assumes eta: "sample_heuristic s lam = Inr eta"
    and node: "node < length tau" "node < length eta"
    and rows: "tau ! node = map Fin tau_row" "eta ! node = map Fin eta_row"
    and len: "length tau_row = length eta_row" "eta_row \<noteq> []"
  shows "(U k \<le> determinism_rate s \<longrightarrow>
            (\<exists>j. stochastic_sampling s lam U tau node k = Inr (j, k + 1)
               \<and> j < length eta_row
               \<and> (\<forall>i<length eta_row. products tau_row eta_row ! i \<le> products tau_row eta_row ! j)
               \<and> (\<forall>i<j. products tau_row eta_row ! i < products tau_row eta_row ! j)))
       \<and> (determinism_rate s < U k \<and> (\<forall>x\<in>set (products tau_row eta_row). 0 \<le> x)
            \<and> 0 < sum_list (products tau_row eta_row) \<and> 0 \<le> U (k + 1) \<and> U (k + 1) < 1 \<longrightarrow>
            (\<exists>j. stochastic_sampling s lam U tau node k = Inr (j, k + 2)
               \<and> j < length eta_row
               \<and> sum_list (take j (products tau_row eta_row))
                    / sum_list (products tau_row eta_row) \<le> U (k + 1)
               \<and> U (k + 1) < sum_list (take (Suc j) (products tau_row eta_row))
                    / sum_list (products tau_row eta_row)))"
proof -
  let ?te = "products tau_row eta_row"
  have lte: "length ?te = length eta_row"
    using len by (simp add: products_def)
  then have ne: "?te \<noteq> []" using len by auto
  have lm: "node < length (mat_mul tau eta)"
    using node by (simp add: mat_mul_def)
  have row: "mat_mul tau eta ! node = map Fin ?te"
    using mat_mul_row [OF node rows] .
  have greedy: "U k \<le> determinism_rate s \<Longrightarrow>
      stochastic_sampling s lam U tau node k
        = (case np_argmax (map Fin ?te) of Inl err \<Rightarrow> Inl err | Inr j \<Rightarrow> Inr (j, k + 1))"
    using lm by (simp add: stochastic_sampling_def eta row Let_def)
  have stoch: "determinism_rate s < U k \<Longrightarrow>
      stochastic_sampling s lam U tau node k
        = (case np_choice (map (\<lambda>x. fdiv x (Fin (sum_list ?te))) (map Fin ?te)) (U (k + 1)) of
             Inl err \<Rightarrow> Inl err | Inr j \<Rightarrow> Inr (j, k + 2))"
    using lm by (simp add: stochastic_sampling_def eta row Let_def py_sum_Fin)
  show ?thesis
  proof (intro conjI impI)
    assume q: "U k \<le> determinism_rate s"
    obtain j where j: "np_argmax (map Fin ?te) = Inr j" "j < length ?te"
      "\<forall>i<length ?te. ?te ! i \<le> ?te ! j" "\<forall>i<j. ?te ! i < ?te ! j"
      using np_argmax_first_max [OF ne] by blast
    show "\<exists>j. stochastic_sampling s lam U tau node k = Inr (j, k + 1)
               \<and> j < length eta_row
               \<and> (\<forall>i<length eta_row. ?te ! i \<le> ?te ! j) \<and> (\<forall>i<j. ?te ! i < ?te ! j)"
      using greedy [OF q] j lte by (intro exI [of _ j]) simp
  next
    assume a: "determinism_rate s < U k \<and> (\<forall>x\<in>set ?te. 0 \<le> x)
            \<and> 0 < sum_list ?te \<and> 0 \<le> U (k + 1) \<and> U (k + 1) < 1"
    let ?S = "sum_list ?te"
    let ?ps = "map (\<lambda>x. x / ?S) ?te"
    have S: "?S \<noteq> 0" using a by simp
    have p: "map (\<lambda>x. fdiv x (Fin ?S)) (map Fin ?te) = map Fin ?ps"
      using normalised [OF S] .
    have "?ps \<noteq> []" using ne by simp
    moreover have "\<forall>x\<in>set ?ps. 0 \<le> x" using a by auto
    moreover have "sum_list ?ps = 1" using S by (simp add: sum_list_divide)
    ultimately obtain j where j: "np_choice (map Fin ?ps) (U (k + 1)) = Inr j" "j < length ?ps"
      "sum_list (take j ?ps) \<le> U (k + 1)" "U (k + 1) < sum_list (take (Suc j) ?ps)"
      using np_choice_interval [of ?ps "U (k + 1)"] a by blast
    have t: "\<And>m. sum_list (take m ?ps) = sum_list (take m ?te) / ?S"
      by (simp add: take_map sum_list_divide)
    show "\<exists>j. stochastic_sampling s lam U tau node k = Inr (j, k + 2)
               \<and> j < length eta_row
               \<and> sum_list (take j ?te) / ?S \<le> U (k + 1)
               \<and> U (k + 1) < sum_list (take (Suc j) ?te) / ?S"
      using stoch a j lte unfolding p t by (intro exI [of _ j]) simp
  qed
qed


lemma example_eta:
  "sample_heuristic example_pbs example_lambdas
     = Inr [[Fin (9 / 10), Fin (1009 / 10000), Fin (9 / 10)],
            [Fin 1, Fin (9 / 10000), Fin (19 / 20)],
            [Fin (9 / 10), Fin (509 / 10000), Fin (9 / 10)]]"
  by (simp add: sample_heuristic_def example_pbs_def example_attributes mat_add_def
      mat_scale_def example_lambdas_def)

lemma uniform3:
  "uniform_pheromone 3 = [[Fin (1 / 2), Fin (1 / 2), Fin (1 / 2)],
      [Fin (1 / 2), Fin (1 / 2), Fin (1 / 2)], [Fin (1 / 2), Fin (1 / 2), Fin (1 / 2)]]"
  by (simp add: uniform_pheromone_def numeral_3_eq_3)

lemma example_greedy:
  "U k \<le> 2 / 10 \<Longrightarrow>
   stochastic_sampling example_pbs example_lambdas U (uniform_pheromone 3) 0 k = Inr (0, k + 1)"
  "U k \<le> 2 / 10 \<Longrightarrow>
   stochastic_sampling example_pbs example_lambdas U (uniform_pheromone 3) 1 k = Inr (0, k + 1)"
  by (simp_all add: stochastic_sampling_def example_eta uniform3 mat_mul_def np_argmax_def
      fle_def feq_def Let_def, simp_all add: example_pbs_def)

lemma example_choice:
  "U k = 1 / 2 \<Longrightarrow> U (k + 1) = 6 / 10 \<Longrightarrow>
   stochastic_sampling example_pbs example_lambdas U (uniform_pheromone 3) 1 k = Inr (2, k + 2)"
  by (simp add: stochastic_sampling_def example_eta uniform3 mat_mul_def np_choice_def
      py_sum_def list_ex_iff Let_def, simp add: example_pbs_def)

theorem stochastic_sampling_rule_witness:
  "stochastic_sampling example_pbs example_lambdas (\<lambda>i. 1 / 10) (uniform_pheromone 3) 1 0
     = Inr (0, 1)
   \<and> stochastic_sampling example_pbs example_lambdas (\<lambda>i. if i = 0 then 1 / 2 else 6 / 10)
       (uniform_pheromone 3) 1 0 = Inr (2, 2)
   \<and> products [1 / 2, 1 / 2, 1 / 2] [1, 9 / 10000, 19 / 20] = [1 / 2, 9 / 20000, 19 / 40]"
proof -
  have a: "(1 / 10 :: real) \<le> determinism_rate example_pbs \<longrightarrow>
      (\<exists>j. stochastic_sampling example_pbs example_lambdas (\<lambda>i. 1 / 10) (uniform_pheromone 3) 1 0
             = Inr (j, 0 + 1)
         \<and> j < length [1, 9 / 10000, 19 / 20 :: real]
         \<and> (\<forall>i<length [1, 9 / 10000, 19 / 20 :: real].
               products [1 / 2, 1 / 2, 1 / 2] [1, 9 / 10000, 19 / 20] ! i
                 \<le> products [1 / 2, 1 / 2, 1 / 2] [1, 9 / 10000, 19 / 20] ! j)
         \<and> (\<forall>i<j. products [1 / 2, 1 / 2, 1 / 2] [1, 9 / 10000, 19 / 20] ! i
                 < products [1 / 2, 1 / 2, 1 / 2] [1, 9 / 10000, 19 / 20] ! j))"
    using stochastic_sampling_rule [OF example_eta, of 1 "uniform_pheromone 3"
        "[1 / 2, 1 / 2, 1 / 2]" "[1, 9 / 10000, 19 / 20]" "\<lambda>i. 1 / 10" 0]
    by (simp add: uniform3)
  show ?thesis
    using a example_greedy(2) [of "\<lambda>i. 1 / 10" 0]
      example_choice [of "\<lambda>i. if i = 0 then 1 / 2 else 6 / 10" 0]
    by (simp add: products_def)
qed

subsection \<open>Nodes already visited and infeasible branches\<close>

lemma collect_Inl: "collect f js = Inl e \<Longrightarrow> \<exists>j\<in>set js. f j = Inl e"
  by (induction js) (auto split: sum.splits)

lemma travel_cost_error: "travel_cost t n = Inl e \<Longrightarrow> e = KeyError"
proof -
  assume "travel_cost t n = Inl e"
  then obtain i where "travel_cost_row t n i = Inl e"
    unfolding travel_cost_def using collect_Inl by fastforce
  then have "collect (travel_cost_cell t i) [0..<n] = Inl e"
    by (auto simp: travel_cost_row_def split: sum.splits)
  then obtain j where "travel_cost_cell t i j = Inl e"
    using collect_Inl by fastforce
  then show "e = KeyError"
    by (auto simp: travel_cost_cell_def split: option.splits)
qed

lemma sample_heuristic_error: "sample_heuristic s lam = Inl e \<Longrightarrow> e = KeyError"
  by (auto simp: sample_heuristic_def heuristic_attributes_def split: sum.splits
      dest: travel_cost_error)

lemma np_argmax_error: "np_argmax xs = Inl e \<Longrightarrow> e = ValueError"
  by (auto simp: np_argmax_def split: list.splits)

lemma np_choice_error: "np_choice p u = Inl e \<Longrightarrow> e = ValueError \<or> e = IndexError"
  by (auto simp: np_choice_def Let_def split: option.splits if_splits)

lemma stochastic_sampling_error:
  "stochastic_sampling s lam U tau node k = Inl e
     \<Longrightarrow> e = KeyError \<or> e = IndexError \<or> e = ValueError"
  by (auto simp: stochastic_sampling_def Let_def split: sum.splits if_splits
      dest: sample_heuristic_error np_argmax_error np_choice_error)

lemma sampling_greedy:
  assumes "sample_heuristic s lam = Inr eta"
    and "node < length tau" "node < length eta"
    and "tau ! node = map Fin tau_row" "eta ! node = map Fin eta_row"
    and "U k \<le> determinism_rate s"
  shows "stochastic_sampling s lam U tau node k
        = (case np_argmax (map Fin (products tau_row eta_row)) of
             Inl err \<Rightarrow> Inl err | Inr j \<Rightarrow> Inr (j, k + 1))"
proof -
  have "node < length (mat_mul tau eta)"
    using assms(2,3) by (simp add: mat_mul_def)
  then show ?thesis
    using assms(1,6) mat_mul_row [OF assms(2-5)]
    by (simp add: stochastic_sampling_def Let_def)
qed

text \<open>
  C8, amended: the source has no \<open>InfeasibleBranchError\<close> and excludes no node, so
  the sampling never signals this error. In a state whose products are all zero
  (a zero total numerator), with the first draw at most \<^verbatim>\<open>determinism_rate\<close>,
  it returns node 0, the first index of the row.
\<close>

theorem no_infeasible_branch_error:
  "stochastic_sampling s lam U tau node k \<noteq> Inl InfeasibleBranchError
   \<and> (sample_heuristic s lam = Inr eta \<and> node < length tau \<and> node < length eta
        \<and> tau ! node = map Fin tau_row \<and> eta ! node = map Fin eta_row
        \<and> length tau_row = length eta_row \<and> eta_row \<noteq> []
        \<and> (\<forall>x\<in>set (products tau_row eta_row). x = 0) \<and> U k \<le> determinism_rate s
      \<longrightarrow> stochastic_sampling s lam U tau node k = Inr (0, k + 1))"
proof (intro conjI impI)
  show "stochastic_sampling s lam U tau node k \<noteq> Inl InfeasibleBranchError"
    using stochastic_sampling_error [of s lam U tau node k InfeasibleBranchError] by auto
next
  assume a: "sample_heuristic s lam = Inr eta \<and> node < length tau \<and> node < length eta
        \<and> tau ! node = map Fin tau_row \<and> eta ! node = map Fin eta_row
        \<and> length tau_row = length eta_row \<and> eta_row \<noteq> []
        \<and> (\<forall>x\<in>set (products tau_row eta_row). x = 0) \<and> U k \<le> determinism_rate s"
  let ?te = "products tau_row eta_row"
  have ne: "?te \<noteq> []"
    using a by (cases tau_row; cases eta_row) (auto simp: products_def)
  obtain j where j: "np_argmax (map Fin ?te) = Inr j" "j < length ?te"
    "\<forall>i<j. ?te ! i < ?te ! j"
    using np_argmax_first_max [OF ne] by blast
  have "j = 0"
  proof (rule ccontr)
    assume "j \<noteq> 0"
    then have "?te ! 0 < ?te ! j" using j(3) by simp
    moreover have "?te ! 0 = 0" "?te ! j = 0"
      using a j(2) ne by (simp_all add: nth_mem)
    ultimately show False by simp
  qed
  then show "stochastic_sampling s lam U tau node k = Inr (0, k + 1)"
    using sampling_greedy [of s lam eta node tau tau_row eta_row U k] a j(1) by simp
qed

lemma zeros3:
  "zeros 3 3 = [[Fin 0, Fin 0, Fin 0], [Fin 0, Fin 0, Fin 0], [Fin 0, Fin 0, Fin 0]]"
  by (simp add: zeros_def numeral_3_eq_3)

text \<open>
  C8, as stated: with a zero total numerator the sampling signals
  \<open>InfeasibleBranchError\<close>. It fails: on a zero pheromone matrix the greedy branch
  returns node 0, and the other branch ends in the \<^verbatim>\<open>ValueError\<close> that
  \<^verbatim>\<open>np.random.choice\<close> raises on the probabilities \<open>0 / 0\<close>.
\<close>

theorem zero_numerator_counterexample:
  "stochastic_sampling example_pbs example_lambdas (\<lambda>i. 1 / 10) (zeros 3 3) 1 0 = Inr (0, 1)
   \<and> stochastic_sampling example_pbs example_lambdas (\<lambda>i. 1 / 2) (zeros 3 3) 1 0
       = Inl ValueError"
  by (simp add: stochastic_sampling_def example_eta zeros3 mat_mul_def np_argmax_def
      np_choice_def py_sum_def fle_def feq_def Let_def, simp add: example_pbs_def)

theorem no_infeasible_branch_error_witness:
  "stochastic_sampling example_pbs example_lambdas (\<lambda>i. 1 / 10) (zeros 3 3) 1 0 = Inr (0, 0 + 1)
   \<and> products [0, 0, 0] [1, 9 / 10000, 19 / 20] = [0, 0, 0]"
  using no_infeasible_branch_error [of example_pbs example_lambdas "\<lambda>i. 1 / 10" "zeros 3 3" 1 0
      "[[Fin (9 / 10), Fin (1009 / 10000), Fin (9 / 10)],
            [Fin 1, Fin (9 / 10000), Fin (19 / 20)],
            [Fin (9 / 10), Fin (509 / 10000), Fin (9 / 10)]]" "[0, 0, 0]"
      "[1, 9 / 10000, 19 / 20]"]
  by (simp add: example_eta zeros3 products_def) (simp add: example_pbs_def)

text \<open>
  C1, at a failing input: the example just after a reset, both draws of the weights
  and the draw \<open>q\<close> equal to 0.1. From the depot, the only node of the partial
  tour, the sampling returns the depot; from node 1, reached from the depot, it
  returns the depot again. The function is given no partial tour at all.
\<close>

theorem sampling_revisits:
  "stochastic_sampling example_pbs example_lambdas (\<lambda>i. 1 / 10) (uniform_pheromone 3) 0 2
     = Inr (0, 3)
   \<and> stochastic_sampling example_pbs example_lambdas (\<lambda>i. 1 / 10) (uniform_pheromone 3) 1 3
     = Inr (0, 4)"
  using example_greedy [of "\<lambda>i. 1 / 10" 2] example_greedy [of "\<lambda>i. 1 / 10" 3]
  by (simp add: example_pbs_def)

subsection \<open>Beam construction\<close>

lemma sample_children_length:
  "sample_children s lam U tau bid m k = Inr (ids, k') \<Longrightarrow> length ids = m"
  by (induction m arbitrary: k ids) (auto split: sum.splits prod.splits)

lemma construction_expanded:
  "(\<forall>node k'. beam_construction_step s lam U tau bid b r k = Inr (node, k')
       \<longrightarrow> expanded b r node)"
  "(\<forall>cs k'. expand_children s lam U tau ids b r k = Inr (cs, k')
       \<longrightarrow> (\<forall>c\<in>set cs. expanded b r c))"
proof (induction s lam U tau bid b r k and s lam U tau ids b r k
    rule: beam_construction_step_expand_children.induct)
  case (1 s lam U tau bid b r k)
  show ?case
  proof (intro allI impI)
    fix node k'
    assume a: "beam_construction_step s lam U tau bid b r k = Inr (node, k')"
    show "expanded b r node"
    proof (cases "0 < min b r")
      case False
      then show ?thesis using a by auto
    next
      case True
      then obtain ids k1 cs where
        sc: "sample_children s lam U tau bid (nat (min b r)) k = Inr (ids, k1)"
        and ec: "expand_children s lam U tau ids (max 1 (b - 1)) (r - 1) k1 = Inr (cs, k')"
        and node: "node = BeamNode bid cs"
        using a by (auto split: sum.splits prod.splits)
      have len: "length ids = nat (min b r)"
        using sample_children_length [OF sc] .
      have "\<forall>c\<in>set cs. expanded (max 1 (b - 1)) (r - 1) c"
        using "1.IH" [OF True sc refl] ec by blast
      moreover have "length cs = length ids"
        using ec
      proof (induction ids arbitrary: cs k1)
        case Nil
        then show ?case by simp
      next
        case (Cons i ids)
        then show ?case by (auto split: sum.splits prod.splits)
      qed
      ultimately show ?thesis
        using node len by simp
    qed
  qed
next
  case (2 s lam U tau b r k)
  then show ?case by simp
next
  case (3 s lam U tau i ids b r k)
  show ?case
  proof (intro allI impI)
    fix cs k'
    assume a: "expand_children s lam U tau (i # ids) b r k = Inr (cs, k')"
    then obtain c k1 cs' where
      st: "beam_construction_step s lam U tau i b r k = Inr (c, k1)"
      and ec: "expand_children s lam U tau ids b r k1 = Inr (cs', k')"
      and cs: "cs = c # cs'"
      by (auto split: sum.splits prod.splits)
    have "expanded b r c" using "3.IH"(1) st by blast
    moreover have "\<forall>c\<in>set cs'. expanded b r c"
      using "3.IH"(2) [OF st refl] ec by blast
    ultimately show "\<forall>c\<in>set cs. expanded b r c"
      using cs by simp
  qed
qed


lemma nonempty_budget:
  assumes "cs \<noteq> []" "length cs = nat (min b r)"
  shows "0 < b \<and> 0 < r"
proof -
  have "0 < length cs" using assms(1) by simp
  then have "0 < nat (min b r)" using assms(2) by simp
  then show ?thesis by (simp add: min_def split: if_splits)
qed

lemma expanded_height: "expanded b r node \<Longrightarrow> height node \<le> nat r"
proof (induction node arbitrary: b r)
  case (BeamNode i cs)
  show ?case
  proof (cases "cs = []")
    case True
    then show ?thesis by simp
  next
    case False
    then have r: "0 < r"
      using nonempty_budget [of cs b r] BeamNode.prems by simp
    have "\<forall>c\<in>set cs. height c \<le> nat (r - 1)"
      using BeamNode.IH BeamNode.prems by auto
    then have m: "Max (set (map height cs)) \<le> nat (r - 1)"
      using False by simp
    have h: "height (BeamNode i cs) = Suc (Max (set (map height cs)))"
      using False by simp
    have "Suc (nat (r - 1)) = nat r" using r by simp
    then show ?thesis using m unfolding h by linarith
  qed
qed

lemma expanded_fanout: "1 \<le> b \<Longrightarrow> expanded b r node \<Longrightarrow> fanout node \<le> nat b"
proof (induction node arbitrary: b r)
  case (BeamNode i cs)
  have len: "length cs \<le> nat b" using BeamNode.prems by auto
  show ?case
  proof (cases "cs = []")
    case True
    then show ?thesis by simp
  next
    case False
    have "\<forall>c\<in>set cs. fanout c \<le> nat (max 1 (b - 1))"
      using BeamNode.IH [of _ "max 1 (b - 1)" "r - 1"] BeamNode.prems by auto
    then have "\<forall>c\<in>set cs. fanout c \<le> nat b"
      using BeamNode.prems(1) by fastforce
    then have "Max (set (map fanout cs)) \<le> nat b"
      using False by simp
    then show ?thesis using False len by simp
  qed
qed

lemma expanded_paths:
  "1 \<le> b \<Longrightarrow> 0 \<le> r \<Longrightarrow> expanded b r node \<Longrightarrow>
   \<forall>p\<in>set (extract_solution node). length p = Suc (nat r) \<and> hd p = node_id node"
proof (induction node arbitrary: b r)
  case (BeamNode i cs)
  show ?case
  proof (cases "cs = []")
    case True
    then have "r = 0" using BeamNode.prems by auto
    then show ?thesis using True by simp
  next
    case False
    then have r: "0 < r"
      using nonempty_budget [of cs b r] BeamNode.prems by simp
    have "\<forall>c\<in>set cs. \<forall>p\<in>set (extract_solution c). length p = Suc (nat (r - 1))"
      using BeamNode.IH [of _ "max 1 (b - 1)" "r - 1"] BeamNode.prems r by auto
    then show ?thesis using False r by auto
  qed
qed

text \<open>
  C5, amended: in the tree that the construction step returns, a node expanded with
  the budget \<open>b\<close> and the count \<open>r\<close> of unvisited customers has exactly
  \<open>min b r\<close> children, none when this is not positive; its children are expanded
  with the budget \<open>max 1 (b - 1)\<close>, decremented but never below 1, and with
  \<open>r - 1\<close>. So the tree is no higher than \<open>r\<close>, and from a budget of at least 1
  no node has more than \<open>b\<close> children (at the root \<open>b = int (\<mu> * k_bw)\<close>). The
  recursion ends on every input: the function is total, by the measure \<open>r\<close>.
\<close>

theorem beam_expansion:
  assumes "beam_construction_step s lam U tau bid b r k = Inr (node, k')"
  shows "expanded b r node \<and> height node \<le> nat r \<and> (1 \<le> b \<longrightarrow> fanout node \<le> nat b)"
  using construction_expanded(1) [of s lam U tau bid b r k] assms
    expanded_height [of b r node] expanded_fanout [of b r node]
  by blast

lemma sample_children_numeral:
  "sample_children s lam U tau bid (numeral v) k =
     (case stochastic_sampling s lam U tau bid k of
        Inl err \<Rightarrow> Inl err
      | Inr (j, k1) \<Rightarrow>
          (case sample_children s lam U tau bid (pred_numeral v) k1 of
             Inl err \<Rightarrow> Inl err
           | Inr (js, k2) \<Rightarrow> Inr (j # js, k2)))"
  by (simp add: numeral_eq_Suc)

lemma example_step_budget_1:
  "beam_construction_step example_pbs example_lambdas (\<lambda>i. 1 / 10) (uniform_pheromone 3) 0 1 2 2
     = Inr (BeamNode 0 [BeamNode 0 [BeamNode 0 []]], 4)"
  by (simp add: example_greedy)

lemma example_step_budget_4:
  "beam_construction_step example_pbs example_lambdas (\<lambda>i. 1 / 10) (uniform_pheromone 3) 0 4 2 2
     = Inr (BeamNode 0 [BeamNode 0 [BeamNode 0 []], BeamNode 0 [BeamNode 0 []]], 6)"
  by (simp add: example_greedy sample_children_numeral)


text \<open>
  C5, as stated: the budget is decremented by one at each depth and an exhausted
  budget stops the expansion. It fails: from the budget 1 with two customers left,
  the node at depth 1, whose decremented budget would be 0, still gets a child.
\<close>

theorem budget_decrement_counterexample:
  "(case beam_construction_step example_pbs example_lambdas (\<lambda>i. 1 / 10)
           (uniform_pheromone 3) 0 1 2 2 of
      Inl err \<Rightarrow> False
    | Inr (node, k') \<Rightarrow> node = BeamNode 0 [BeamNode 0 [BeamNode 0 []]]
        \<and> \<not> decremented 1 2 node)"
  unfolding example_step_budget_1 by simp

theorem beam_expansion_witness:
  "beam_construction_step example_pbs example_lambdas (\<lambda>i. 1 / 10) (uniform_pheromone 3) 0 4 2 2
     = Inr (BeamNode 0 [BeamNode 0 [BeamNode 0 []], BeamNode 0 [BeamNode 0 []]], 6)
   \<and> expanded 4 2 (BeamNode 0 [BeamNode 0 [BeamNode 0 []], BeamNode 0 [BeamNode 0 []]])
   \<and> height (BeamNode 0 [BeamNode 0 [BeamNode 0 []], BeamNode 0 [BeamNode 0 []]]) \<le> nat 2
   \<and> fanout (BeamNode 0 [BeamNode 0 [BeamNode 0 []], BeamNode 0 [BeamNode 0 []]]) \<le> nat 4"
  using beam_expansion [OF example_step_budget_4]
  unfolding example_step_budget_4 by simp

lemma argmin_scan_bound:
  "argmin_scan xs i mp mi = mi \<or> (i \<le> argmin_scan xs i mp mi \<and> argmin_scan xs i mp mi < i + length xs)"
proof (induction xs arbitrary: i mp mi)
  case Nil
  then show ?case by simp
next
  case (Cons x xs)
  show ?case
    using Cons [of "Suc i" x i] Cons [of "Suc i" mp mi] by auto
qed

lemma np_argmin_bound: "np_argmin xs = Inr j \<Longrightarrow> j < length xs"
  using argmin_scan_bound [of "tl xs" 1 "hd xs" 0]
  by (auto simp: np_argmin_def split: list.splits)

lemma beam_construct_shape:
  assumes run: "beam_construct s U tau k = Inr (tour, k')"
    and budget: "1 \<le> mu_k_bw s" and nodes: "1 \<le> num_nodes (pbs_tsptw s)"
  shows "length tour = nat (num_nodes (pbs_tsptw s)) + 1 \<and> hd tour = 0 \<and> last tour = 0"
proof -
  obtain lam k1 where lam: "random_define_lambda U k = (lam, k1)"
    by (cases "random_define_lambda U k")
  let ?r = "num_nodes (pbs_tsptw s) - 1"
  obtain root k2 i where
    st: "beam_construction_step s lam U tau 0 (mu_k_bw s) ?r k1 = Inr (root, k2)"
    and am: "np_argmin (map (get_solution_cost (pbs_tsptw s)) (extract_solution root)) = Inr i"
    and tour: "tour = extract_solution root ! i @ [0]"
    using run by (auto simp: beam_construct_def lam Let_def split: sum.splits prod.splits)
  have ex: "expanded (mu_k_bw s) ?r root"
    using construction_expanded(1) [of s lam U tau 0 "mu_k_bw s" ?r k1] st by blast
  have id: "node_id root = 0"
    using st by (auto split: if_splits sum.splits prod.splits)
  have "i < length (extract_solution root)"
    using np_argmin_bound [OF am] by simp
  then have "extract_solution root ! i \<in> set (extract_solution root)"
    by simp
  then have p: "length (extract_solution root ! i) = Suc (nat ?r)"
    "hd (extract_solution root ! i) = 0"
    using expanded_paths [OF budget _ ex] nodes id by auto
  then have "extract_solution root ! i \<noteq> []" by auto
  then show ?thesis
    using p nodes by (simp add: tour)
qed

lemma example_random_lambda: "random_define_lambda (\<lambda>i. 1 / 10) 0 = (example_lambdas, 2)"
  by (simp add: random_define_lambda_def example_lambdas_def Let_def)

text \<open>
  C2, at a failing input: the example just after a reset, every draw equal to 0.1.
  The tour returned has \<open>n + 1 = 4\<close> nodes and starts and ends at the depot, as
  \<open>beam_construct_shape\<close> shows of every run, but its interior is the depot twice
  and not a permutation of the customers 1 and 2.
\<close>

theorem beam_construct_revisits:
  "beam_construct example_pbs (\<lambda>i. 1 / 10) (uniform_pheromone 3) 0 = Inr ([0, 0, 0, 0], 6)"
proof -
  have c: "mu_k_bw example_pbs = 4" "num_nodes (pbs_tsptw example_pbs) - 1 = 2"
    by (simp_all add: example_pbs_def example_instance_def)
  have g: "get_solution_cost (pbs_tsptw example_pbs) = (\<lambda>p. 0)"
    by (simp add: example_pbs_def example_instance_def)
  show ?thesis
    unfolding beam_construct_def example_random_lambda prod.case Let_def c
      example_step_budget_4 sum.case g
    by (simp add: np_argmin_def)
qed

end
